theory Spec2Isabelle
  imports Main "HOL-Library.Word" "HOL-Library.Signed_Division"
begin

section \<open>Data model\<close>

text \<open>
  The two example programs (\<^verbatim>\<open>view_tigr.cpp\<close> and \<^verbatim>\<open>lidar_view_example.cpp\<close>) are glue
  around an external sensor SDK and an external windowing library. The types below are
  the parts of those libraries that the programs read and write.
\<close>

type_synonym uint8_t = "8 word"
type_synonym uint32_t = "32 word"

text \<open>
  Where the C++ source has undefined behaviour, the model returns a fault.
  \<open>Signed_overflow\<close>: a result of \<^verbatim>\<open>int\<close>/\<^verbatim>\<open>int32_t\<close> arithmetic outside
  \<open>[INT32_MIN, INT32_MAX]\<close>; \<open>Division_by_zero\<close>: an integer division whose divisor is
  zero; \<open>Out_of_bounds\<close>: an index outside the pixel array of a bitmap;
  \<open>Null_string\<close>: a \<^verbatim>\<open>std::string\<close> constructed from a null pointer.
\<close>

datatype fault = Signed_overflow | Division_by_zero | Out_of_bounds | Null_string

text \<open>\<^verbatim>\<open>TPixel\<close> of tigr.h: four \<^verbatim>\<open>unsigned char\<close> components.\<close>

record TPixel =
  pix_r :: uint8_t
  pix_g :: uint8_t
  pix_b :: uint8_t
  pix_a :: uint8_t

text \<open>
  \<^verbatim>\<open>Tigr\<close> of tigr.h, the fields the programs use: the dimensions \<^verbatim>\<open>w\<close>, \<^verbatim>\<open>h\<close>
  (C \<^verbatim>\<open>int\<close>) and the pixel array \<^verbatim>\<open>pix\<close>, row after row.
\<close>

record Tigr =
  bmp_w :: int
  bmp_h :: int
  pix :: "TPixel list"

text \<open>\<^verbatim>\<open>tigr_mouse_t\<close> of tigr_mouse.h.\<close>

record tigr_mouse_t =
  mouse_btn :: int
  mouse_up :: int
  mouse_down :: int
  mouse_x :: int
  mouse_y :: int

text \<open>
  The channel fields of a scan. The programs only name \<^verbatim>\<open>RANGE\<close>; \<^verbatim>\<open>scan_to_bmp\<close> and
  \<^verbatim>\<open>print_range\<close> take any field.
\<close>

datatype ChanField = RANGE | SIGNAL | NEAR_IR | REFLECTIVITY

text \<open>
  \<^verbatim>\<open>LidarScan\<close>: its dimensions and, for each channel field, the image
  \<^verbatim>\<open>scan.field(f)\<close> of \<^verbatim>\<open>uint32_t\<close> values, read as \<^verbatim>\<open>img(y, x)\<close> (row, column).
  The programs read it only at rows below \<open>scan_h\<close> and columns below \<open>scan_w\<close>.
\<close>

record LidarScan =
  scan_w :: nat
  scan_h :: nat
  field :: "ChanField \<Rightarrow> nat \<Rightarrow> nat \<Rightarrow> uint32_t"

section \<open>32-bit signed arithmetic\<close>

definition INT32_MAX :: int where
  "INT32_MAX = 2147483647"

definition INT32_MIN :: int where
  "INT32_MIN = - 2147483648"

text \<open>
  An \<^verbatim>\<open>int32_t\<close> is modelled by its value, an \<open>int\<close> in \<open>[INT32_MIN, INT32_MAX]\<close>.
  A result outside this range is signed overflow, undefined in C++.
\<close>

definition int32_of :: "int \<Rightarrow> fault + int" where
  "int32_of v = (if INT32_MIN \<le> v \<and> v \<le> INT32_MAX then Inr v else Inl Signed_overflow)"

text \<open>
  Integer division of C++: undefined for a zero divisor, truncating towards zero
  otherwise (\<open>sdiv\<close>), and overflowing for \<open>INT32_MIN / -1\<close>.
\<close>

definition int32_div :: "int \<Rightarrow> int \<Rightarrow> fault + int" where
  "int32_div a d = (if d = 0 then Inl Division_by_zero else int32_of (a sdiv d))"

text \<open>
  \<^verbatim>\<open>int32_t value = img(y, x)\<close>: the conversion of a \<^verbatim>\<open>uint32_t\<close> to \<^verbatim>\<open>int32_t\<close>
  keeps the bits, so values from \<open>2^31\<close> on become negative.
\<close>

definition to_int32 :: "uint32_t \<Rightarrow> int" where
  "to_int32 v = sint v"

text \<open>
  What a compiler that lets signed arithmetic wrap around makes of a result: its low 32
  bits, read as two's complement. The model does not use it; it serves to say what such a
  compiler stores where the model reports an overflow.
\<close>

definition wrap_int32 :: "int \<Rightarrow> int" where
  "wrap_int32 v = sint (word_of_int v :: 32 word)"

text \<open>Storing an \<^verbatim>\<open>int\<close> into an \<^verbatim>\<open>unsigned char\<close> keeps the low eight bits.\<close>

definition to_uint8 :: "int \<Rightarrow> uint8_t" where
  "to_uint8 v = word_of_int v"

section \<open>Faults and loops\<close>

text \<open>Sequencing of two steps that may fault: the second runs only if the first succeeds.\<close>

definition and_then :: "fault + 'a \<Rightarrow> ('a \<Rightarrow> fault + 'b) \<Rightarrow> fault + 'b" where
  "and_then m k = (case m of Inl e \<Rightarrow> Inl e | Inr v \<Rightarrow> k v)"

text \<open>
  \<^verbatim>\<open>for (int i = 0; i < n; ++i) body\<close> runs the body on \<open>[0..<n]\<close>, threading the state
  and stopping at the first fault.
\<close>

primrec for_each :: "'i list \<Rightarrow> ('i \<Rightarrow> 's \<Rightarrow> fault + 's) \<Rightarrow> 's \<Rightarrow> fault + 's" where
  "for_each [] body st = Inr st"
| "for_each (i # is) body st = and_then (body i st) (for_each is body)"

section \<open>Text output\<close>

definition endl :: string where
  "endl = [CHR 0x0A]"

definition dquote :: string where
  "dquote = [CHR 0x22]"

text \<open>Decimal output of integers, as \<^verbatim>\<open>operator<<\<close> and \<^verbatim>\<open>%i\<close> print them.\<close>

fun show_nat :: "nat \<Rightarrow> string" where
  "show_nat n =
     (if n < 10 then [char_of (48 + n)]
      else show_nat (n div 10) @ [char_of (48 + n mod 10)])"

declare show_nat.simps [simp del]

definition show_int :: "int \<Rightarrow> string" where
  "show_int i = (if i < 0 then ''-'' @ show_nat (nat (- i)) else show_nat (nat i))"

section \<open>view\_tigr: scan\_to\_bmp and print\_range\<close>

text \<open>
  The first pass of \<^verbatim>\<open>scan_to_bmp\<close>: one step of the inner loop body on the running
  pair \<open>(min, max)\<close>.
\<close>

definition minmax_step :: "(nat \<Rightarrow> nat \<Rightarrow> uint32_t) \<Rightarrow> nat \<Rightarrow> nat \<Rightarrow> int \<times> int \<Rightarrow> int \<times> int" where
  "minmax_step img x y acc =
     (case acc of (mn, mx) \<Rightarrow>
        let value = to_int32 (img y x);
            mn' = (if value < mn then value else mn);
            mx' = (if value > mx then value else mx)
        in (mn', mx'))"

definition scan_minmax :: "LidarScan \<Rightarrow> ChanField \<Rightarrow> int \<times> int" where
  "scan_minmax scan f =
     fold (\<lambda>x. fold (\<lambda>y. minmax_step (field scan f) x y) [0..<scan_h scan])
       [0..<scan_w scan] (INT32_MAX, INT32_MIN)"

text \<open>
  Writing the pixel \<^verbatim>\<open>bmp->pix[i]\<close>; an index outside the array is a fault. The index
  \<^verbatim>\<open>y * bmp->w + x\<close> is computed here without a bound: a pixel array has fewer than
  \<open>2^31\<close> pixels, so an index that does not fit an \<^verbatim>\<open>int\<close> is outside it all the same.
\<close>

definition write_pix :: "Tigr \<Rightarrow> int \<Rightarrow> (TPixel \<Rightarrow> TPixel) \<Rightarrow> fault + Tigr" where
  "write_pix bmp i upd =
     (if 0 \<le> i \<and> nat i < length (pix bmp)
      then Inr (bmp\<lparr>pix := (pix bmp)[nat i := upd (pix bmp ! nat i)]\<rparr>)
      else Inl Out_of_bounds)"

text \<open>The body of the second pass of \<^verbatim>\<open>scan_to_bmp\<close> at column \<open>x\<close> and row \<open>y\<close>.\<close>

definition shade_pixel ::
  "(nat \<Rightarrow> nat \<Rightarrow> uint32_t) \<Rightarrow> int \<Rightarrow> int \<Rightarrow> nat \<Rightarrow> nat \<Rightarrow> Tigr \<Rightarrow> fault + Tigr" where
  "shade_pixel img mn mx x y bmp =
     and_then (int32_of (to_int32 (img y x) - mn)) (\<lambda>v1.
     and_then (int32_of (v1 * 255)) (\<lambda>v2.
     and_then (int32_of (mx - mn)) (\<lambda>d.
     and_then (int32_div v2 d) (\<lambda>v3.
       write_pix bmp (int y * bmp_w bmp + int x)
         (\<lambda>p. p\<lparr>pix_r := to_uint8 v3, pix_g := to_uint8 v3, pix_b := to_uint8 v3,
                pix_a := 255\<rparr>)))))"

definition scan_to_bmp :: "LidarScan \<Rightarrow> ChanField \<Rightarrow> Tigr \<Rightarrow> fault + Tigr" where
  "scan_to_bmp scan f bmp =
     (case scan_minmax scan f of (mn, mx) \<Rightarrow>
        for_each [0..<scan_w scan]
          (\<lambda>x. for_each [0..<scan_h scan] (\<lambda>y. shade_pixel (field scan f) mn mx x y))
          bmp)"

text \<open>
  \<^verbatim>\<open>print_range\<close>: for a cursor inside the scan, colour the pixel and print
  \<^verbatim>\<open>"%i %i : %i\n"\<close> of the column, the row and the channel value on standard output
  (the last parameter and the second component of the result).
\<close>

definition print_range ::
  "LidarScan \<Rightarrow> ChanField \<Rightarrow> Tigr \<Rightarrow> int \<Rightarrow> int \<Rightarrow> string \<Rightarrow> fault + (Tigr \<times> string)" where
  "print_range scan f bmp x y out =
     (if x < 0 \<or> x \<ge> int (scan_w scan) then Inr (bmp, out)
      else if y < 0 \<or> y \<ge> int (scan_h scan) then Inr (bmp, out)
      else
        and_then
          (write_pix bmp (y * bmp_w bmp + x)
             (\<lambda>p. p\<lparr>pix_r := 0xFF, pix_g := 0, pix_b := 0, pix_a := 255\<rparr>))
          (\<lambda>bmp'. let value = to_int32 (field scan f (nat y) (nat x))
                  in Inr (bmp', out @ show_int x @ '' '' @ show_int y @ '' : '' @
                            show_int value @ endl)))"

section \<open>The sensor, the SDK and the process\<close>

text \<open>
  The status returned by \<^verbatim>\<open>sensor::poll_client\<close>. The programs only test it against
  the three masks \<^verbatim>\<open>CLIENT_ERROR\<close>, \<^verbatim>\<open>LIDAR_DATA\<close> and \<^verbatim>\<open>IMU_DATA\<close>; each field
  below is the outcome of one such test (\<^verbatim>\<open>st & sensor::CLIENT_ERROR\<close> and so on).
\<close>

record client_state =
  CLIENT_ERROR :: bool
  LIDAR_DATA :: bool
  IMU_DATA :: bool

text \<open>
  The fields of \<^verbatim>\<open>sensor::sensor_info\<close> that the programs read
  (\<^verbatim>\<open>format.udp_profile_lidar\<close> is only handed on to the constructor of the scan).
\<close>

record sensor_info =
  fw_rev :: string
  sn :: string
  prod_line :: string
  columns_per_frame :: nat
  pixels_per_column :: nat
  column_window :: "int \<times> int"

text \<open>
  What the sensor does during one iteration of the polling loop: the status the poll
  returns and, for each of the two packet reads, the value the read returns and the
  bytes it leaves in the packet buffer. \<open>ev_mouse\<close> is the content of \<^verbatim>\<open>app.mouse\<close>
  at that iteration; the display loop of \<^verbatim>\<open>view_tigr\<close> stores it there.
\<close>

record sensor_event =
  ev_state :: client_state
  ev_lidar_ok :: bool
  ev_lidar_buf :: "uint8_t list"
  ev_imu_ok :: bool
  ev_imu_buf :: "uint8_t list"
  ev_mouse :: tigr_mouse_t

text \<open>
  The functions of the SDK that the loops call, as parameters: the scan batcher
  (\<^verbatim>\<open>batch_to_scan(packet_buf, scan)\<close>, on the batcher's own state \<open>'b\<close>),
  \<^verbatim>\<open>scan.complete(window)\<close>, \<^verbatim>\<open>ouster::cartesian(scan, lut)\<close> with points \<open>'p\<close>, the
  constructor of the batcher, and the version strings.
\<close>

record ('b, 'p) sdk =
  SDK_VERSION :: string
  SDK_VERSION_FULL :: string
  BUILD_SYSTEM :: string
  ScanBatcher :: "nat \<Rightarrow> 'b"
  batch_to_scan :: "'b \<Rightarrow> uint8_t list \<Rightarrow> LidarScan \<Rightarrow> bool \<times> 'b \<times> LidarScan"
  complete :: "LidarScan \<Rightarrow> int \<times> int \<Rightarrow> bool"
  cartesian :: "LidarScan \<Rightarrow> 'p"

text \<open>
  The sensor at the other end: whether \<^verbatim>\<open>sensor::init_client\<close> returns a handle for a
  hostname and a destination, the parsed metadata, and the events of the polls to come.
\<close>

record world =
  init_client :: "string \<Rightarrow> string \<Rightarrow> bool"
  metadata :: sensor_info
  events :: "sensor_event list"

text \<open>The calls to the SDK, the mutex and the visualizer, in the order they are made.\<close>

datatype sdk_call =
    Poll_client
  | Read_lidar_packet bool
  | Batch_to_scan bool
  | Scan_complete bool
  | Mutex_lock
  | Mutex_unlock
  | Cartesian
  | Cloud_set_xyz
  | Cloud_set_key
  | Read_imu_packet bool

text \<open>
  The outcome of running a program on finitely many sensor events: still running (the
  loop waits in its next poll), exited with a status, or stopped by a fault; each with the
  state of the process at that point.
\<close>

datatype 's run = Running 's | Exited int 's | Crashed fault 's

definition EXIT_SUCCESS :: int where
  "EXIT_SUCCESS = 0"

definition EXIT_FAILURE :: int where
  "EXIT_FAILURE = 1"

definition UDP_BUF_SIZE :: nat where
  "UDP_BUF_SIZE = 65536"

text \<open>The lines that both programs print about the sensor before they start polling.\<close>

definition banner :: "sensor_info \<Rightarrow> string" where
  "banner info =
     ''  Firmware version:  '' @ fw_rev info @
     endl @ ''  Serial number:     '' @ sn info @
     endl @ ''  Product line:      '' @ prod_line info @
     endl @ ''  Scan dimensions:   '' @ show_nat (columns_per_frame info) @ '' x '' @
       show_nat (pixels_per_column info) @
     endl @ ''  Column window:     ['' @ show_int (fst (column_window info)) @ '', '' @
       show_int (snd (column_window info)) @ '']'' @ endl"

text \<open>
  \<^verbatim>\<open>LidarScan{w, h, profile}\<close>: a scan of the given dimensions whose fields are zero.
\<close>

definition new_scan :: "nat \<Rightarrow> nat \<Rightarrow> LidarScan" where
  "new_scan w h = \<lparr>scan_w = w, scan_h = h, field = (\<lambda>f y x. 0)\<rparr>"

text \<open>\<^verbatim>\<open>tigrBitmap(w, h)\<close>: a bitmap of \<open>w * h\<close> pixels, all components zero.\<close>

definition tigrBitmap :: "int \<Rightarrow> int \<Rightarrow> Tigr" where
  "tigrBitmap w h =
     \<lparr>bmp_w = w, bmp_h = h,
      pix = replicate (nat (w * h)) \<lparr>pix_r = 0, pix_g = 0, pix_b = 0, pix_a = 0\<rparr>\<rparr>"

section \<open>view\_tigr: the acquisition thread\<close>

text \<open>
  The state of the \<^verbatim>\<open>view_tigr\<close> process: the fields of \<^verbatim>\<open>app_t\<close> that the code uses,
  the locals of \<^verbatim>\<open>render_thread\<close> (packet buffer, scan, batcher), the two output
  streams and the calls made so far.
\<close>

record 'b view_state =
  app_w :: int
  app_h :: int
  app_mouse :: tigr_mouse_t
  app_bmp :: Tigr
  packet_buf :: "uint8_t list"
  scan :: LidarScan
  batcher :: 'b
  cout :: string
  cerr :: string
  calls :: "sdk_call list"

text \<open>\<^verbatim>\<open>FATAL(msg)\<close>: print the message and a newline on \<^verbatim>\<open>std::cerr\<close>, then
  \<^verbatim>\<open>std::exit(EXIT_FAILURE)\<close>.\<close>

definition FATAL :: "string \<Rightarrow> 'b view_state \<Rightarrow> 'b view_state run" where
  "FATAL msg s = Exited EXIT_FAILURE (s\<lparr>cerr := cerr s @ msg @ endl\<rparr>)"

text \<open>
  The frame write of \<^verbatim>\<open>render_thread\<close>, between \<^verbatim>\<open>pthread_mutex_lock\<close> and
  \<^verbatim>\<open>pthread_mutex_unlock\<close>: \<^verbatim>\<open>scan_to_bmp\<close> on the \<^verbatim>\<open>RANGE\<close> field, then
  \<^verbatim>\<open>print_range\<close> at the cursor if the button is down. The call of
  \<^verbatim>\<open>ouster::cartesian\<close> that follows has its result dropped.
\<close>

definition frame_write :: "'b view_state \<Rightarrow> 'b view_state run" where
  "frame_write s =
     (let s1 = s\<lparr>calls := calls s @ [Mutex_lock]\<rparr> in
      case scan_to_bmp (scan s1) RANGE (app_bmp s1) of
        Inl e \<Rightarrow> Crashed e s1
      | Inr bmp1 \<Rightarrow>
          (case (if mouse_btn (app_mouse s1) \<noteq> 0
                 then print_range (scan s1) RANGE bmp1
                        (mouse_x (app_mouse s1)) (mouse_y (app_mouse s1)) (cout s1)
                 else Inr (bmp1, cout s1)) of
             Inl e \<Rightarrow> Crashed e (s1\<lparr>app_bmp := bmp1\<rparr>)
           | Inr (bmp2, out2) \<Rightarrow>
               Running (s1\<lparr>app_bmp := bmp2, cout := out2,
                           calls := calls s1 @ [Mutex_unlock, Cartesian]\<rparr>)))"

text \<open>The branch \<^verbatim>\<open>if (st & sensor::LIDAR_DATA)\<close> of the loop body.\<close>

definition lidar_branch ::
  "('b, 'p) sdk \<Rightarrow> sensor_info \<Rightarrow> sensor_event \<Rightarrow> 'b view_state \<Rightarrow> 'b view_state run" where
  "lidar_branch k info ev s =
     (if LIDAR_DATA (ev_state ev) then
        let s1 = s\<lparr>packet_buf := ev_lidar_buf ev,
                   calls := calls s @ [Read_lidar_packet (ev_lidar_ok ev)]\<rparr>
        in if \<not> ev_lidar_ok ev then FATAL ''Failed to read a packet of the expected size!'' s1
           else
             (case batch_to_scan k (batcher s1) (packet_buf s1) (scan s1) of
                (full, b', scan') \<Rightarrow>
                  let s2 = s1\<lparr>batcher := b', scan := scan',
                              calls := calls s1 @ [Batch_to_scan full]\<rparr>
                  in if full then
                       let ok = complete k (scan s2) (column_window info);
                           s3 = s2\<lparr>calls := calls s2 @ [Scan_complete ok]\<rparr>
                       in if ok then frame_write s3 else Running s3
                     else Running s2)
      else Running s)"

text \<open>The branch \<^verbatim>\<open>if (st & sensor::IMU_DATA)\<close>: the packet is read and not used.\<close>

definition imu_branch :: "sensor_event \<Rightarrow> 'b view_state \<Rightarrow> 'b view_state" where
  "imu_branch ev s =
     (if IMU_DATA (ev_state ev)
      then s\<lparr>packet_buf := ev_imu_buf ev, calls := calls s @ [Read_imu_packet (ev_imu_ok ev)]\<rparr>
      else s)"

text \<open>
  One iteration of \<^verbatim>\<open>while (1)\<close> in \<^verbatim>\<open>render_thread\<close>. The mouse state is whatever the
  display loop has stored by then.
\<close>

definition render_iteration ::
  "('b, 'p) sdk \<Rightarrow> sensor_info \<Rightarrow> sensor_event \<Rightarrow> 'b view_state \<Rightarrow> 'b view_state run" where
  "render_iteration k info ev s0 =
     (let s = s0\<lparr>app_mouse := ev_mouse ev, calls := calls s0 @ [Poll_client]\<rparr> in
      if CLIENT_ERROR (ev_state ev) then FATAL ''Sensor client returned error state!'' s
      else
        (case lidar_branch k info ev s of
           Running s1 \<Rightarrow> Running (imu_branch ev s1)
         | Exited c s1 \<Rightarrow> Exited c s1
         | Crashed e s1 \<Rightarrow> Crashed e s1))"

text \<open>The loop on the events of the sensor; it never leaves by itself.\<close>

primrec render_loop ::
  "('b, 'p) sdk \<Rightarrow> sensor_info \<Rightarrow> sensor_event list \<Rightarrow> 'b view_state \<Rightarrow> 'b view_state run" where
  "render_loop k info [] s = Running s"
| "render_loop k info (ev # evs) s =
     (case render_iteration k info ev s of
        Running s1 \<Rightarrow> render_loop k info evs s1
      | Exited c s1 \<Rightarrow> Exited c s1
      | Crashed e s1 \<Rightarrow> Crashed e s1)"

definition render_thread ::
  "('b, 'p) sdk \<Rightarrow> sensor_info \<Rightarrow> sensor_event list \<Rightarrow> 'b view_state \<Rightarrow> 'b view_state run" where
  "render_thread k info evs s =
     render_loop k info evs
       (s\<lparr>cerr := cerr s @ banner info,
          batcher := ScanBatcher k (columns_per_frame info),
          packet_buf := replicate UDP_BUF_SIZE 0,
          scan := new_scan (columns_per_frame info) (pixels_per_column info)\<rparr>)"

text \<open>
  \<^verbatim>\<open>init\<close>: connect to the sensor and read its metadata. The result carries the parsed
  \<^verbatim>\<open>sensor_info\<close> (\<^verbatim>\<open>app->info\<close>).
\<close>

definition init ::
  "('b, 'p) sdk \<Rightarrow> world \<Rightarrow> string \<Rightarrow> 'b view_state \<Rightarrow> ('b view_state \<times> sensor_info) run" where
  "init k wld sensor_hostname s =
     (let s1 = s\<lparr>cerr := cerr s @ ''Ouster client example '' @ SDK_VERSION k @ endl @
                    ''Connecting to '' @ dquote @ sensor_hostname @ dquote @ ''...'' @ endl\<rparr>
      in if \<not> init_client wld sensor_hostname []
         then (case FATAL ''Failed to connect'' s1 of
                 Exited c s2 \<Rightarrow> Exited c (s2, metadata wld)
               | Running s2 \<Rightarrow> Running (s2, metadata wld)
               | Crashed e s2 \<Rightarrow> Crashed e (s2, metadata wld))
         else
           Running
             (s1\<lparr>cerr := cerr s1 @ ''Connection to sensor succeeded'' @ endl @
                     ''Gathering metadata...'' @ endl,
                 app_w := int (columns_per_frame (metadata wld)),
                 app_h := int (pixels_per_column (metadata wld))\<rparr>,
              metadata wld))"

text \<open>
  The state of the process when \<^verbatim>\<open>main\<close> starts: \<^verbatim>\<open>app_t app = {argv[1]}\<close> sets every
  other member to zero, and nothing has been printed.
\<close>

definition app_start :: "('b, 'p) sdk \<Rightarrow> 'b view_state" where
  "app_start k =
     \<lparr>app_w = 0, app_h = 0,
      app_mouse = \<lparr>mouse_btn = 0, mouse_up = 0, mouse_down = 0, mouse_x = 0, mouse_y = 0\<rparr>,
      app_bmp = tigrBitmap 0 0, packet_buf = [], scan = new_scan 0 0,
      batcher = ScanBatcher k 0, cout = [], cerr = [], calls = []\<rparr>"

text \<open>
  \<^verbatim>\<open>main\<close> of \<^verbatim>\<open>view_tigr\<close>, with \<open>argv\<close> the list \<^verbatim>\<open>argv[0], ..., argv[argc - 1]\<close>.
  There is no test of \<^verbatim>\<open>argc\<close>: \<^verbatim>\<open>argv[1]\<close> is turned into a \<^verbatim>\<open>std::string\<close> at
  once, and \<^verbatim>\<open>argv[argc]\<close> is a null pointer. After \<^verbatim>\<open>init\<close> the bitmap is allocated
  and the acquisition thread started; the display loop, which reads the bitmap and stores
  the mouse state, is the environment of this model.
\<close>

definition view_tigr_main ::
  "('b, 'p) sdk \<Rightarrow> world \<Rightarrow> string list \<Rightarrow> 'b view_state run" where
  "view_tigr_main k wld argv =
     (if length argv \<le> 1 then Crashed Null_string (app_start k)
      else
        (case init k wld (argv ! 1) (app_start k) of
           Crashed e (s, info) \<Rightarrow> Crashed e s
         | Exited c (s, info) \<Rightarrow> Exited c s
         | Running (s, info) \<Rightarrow>
             render_thread k info (events wld)
               (s\<lparr>app_bmp := tigrBitmap (app_w s) (app_h s)\<rparr>)))"

section \<open>lidar\_view\_example\<close>

text \<open>
  The state of the \<^verbatim>\<open>lidar_view_example\<close> process: the locals of \<^verbatim>\<open>main\<close> that the
  loop changes, the points last given to the cloud of the visualizer, whether its key
  has been set, the error stream and the calls made so far.
\<close>

record ('b, 'p) lv_state =
  lv_packet_buf :: "uint8_t list"
  lv_scan :: LidarScan
  lv_batcher :: 'b
  lv_cloud_xyz :: "'p option"
  lv_cloud_key :: bool
  lv_cerr :: string
  lv_calls :: "sdk_call list"

definition lv_FATAL :: "string \<Rightarrow> ('b, 'p) lv_state \<Rightarrow> ('b, 'p) lv_state run" where
  "lv_FATAL msg s = Exited EXIT_FAILURE (s\<lparr>lv_cerr := lv_cerr s @ msg @ endl\<rparr>)"

definition lv_lidar_branch ::
  "('b, 'p) sdk \<Rightarrow> sensor_info \<Rightarrow> sensor_event \<Rightarrow> ('b, 'p) lv_state \<Rightarrow> ('b, 'p) lv_state run" where
  "lv_lidar_branch k info ev s =
     (if LIDAR_DATA (ev_state ev) then
        let s1 = s\<lparr>lv_packet_buf := ev_lidar_buf ev,
                   lv_calls := lv_calls s @ [Read_lidar_packet (ev_lidar_ok ev)]\<rparr>
        in if \<not> ev_lidar_ok ev then lv_FATAL ''Failed to read a packet of the expected size!'' s1
           else
             (case batch_to_scan k (lv_batcher s1) (lv_packet_buf s1) (lv_scan s1) of
                (full, b', scan') \<Rightarrow>
                  let s2 = s1\<lparr>lv_batcher := b', lv_scan := scan',
                              lv_calls := lv_calls s1 @ [Batch_to_scan full]\<rparr>
                  in if full then
                       let ok = complete k (lv_scan s2) (column_window info);
                           s3 = s2\<lparr>lv_calls := lv_calls s2 @ [Scan_complete ok]\<rparr>
                       in if ok
                          then Running
                                 (s3\<lparr>lv_cloud_xyz := Some (cartesian k (lv_scan s3)),
                                     lv_cloud_key := True,
                                     lv_calls := lv_calls s3 @
                                       [Cartesian, Cloud_set_xyz, Cloud_set_key]\<rparr>)
                          else Running s3
                     else Running s2)
      else Running s)"

definition lv_imu_branch :: "sensor_event \<Rightarrow> ('b, 'p) lv_state \<Rightarrow> ('b, 'p) lv_state" where
  "lv_imu_branch ev s =
     (if IMU_DATA (ev_state ev)
      then s\<lparr>lv_packet_buf := ev_imu_buf ev,
             lv_calls := lv_calls s @ [Read_imu_packet (ev_imu_ok ev)]\<rparr>
      else s)"

definition lv_iteration ::
  "('b, 'p) sdk \<Rightarrow> sensor_info \<Rightarrow> sensor_event \<Rightarrow> ('b, 'p) lv_state \<Rightarrow> ('b, 'p) lv_state run" where
  "lv_iteration k info ev s0 =
     (let s = s0\<lparr>lv_calls := lv_calls s0 @ [Poll_client]\<rparr> in
      if CLIENT_ERROR (ev_state ev) then lv_FATAL ''Sensor client returned error state!'' s
      else
        (case lv_lidar_branch k info ev s of
           Running s1 \<Rightarrow> Running (lv_imu_branch ev s1)
         | Exited c s1 \<Rightarrow> Exited c s1
         | Crashed e s1 \<Rightarrow> Crashed e s1))"

primrec lv_loop ::
  "('b, 'p) sdk \<Rightarrow> sensor_info \<Rightarrow> sensor_event list \<Rightarrow> ('b, 'p) lv_state \<Rightarrow> ('b, 'p) lv_state run" where
  "lv_loop k info [] s = Running s"
| "lv_loop k info (ev # evs) s =
     (case lv_iteration k info ev s of
        Running s1 \<Rightarrow> lv_loop k info evs s1
      | Exited c s1 \<Rightarrow> Exited c s1
      | Crashed e s1 \<Rightarrow> Crashed e s1)"

definition usage :: "('b, 'p) sdk \<Rightarrow> string" where
  "usage k =
     ''Version: '' @ SDK_VERSION_FULL k @ '' ('' @ BUILD_SYSTEM k @ '')'' @
     endl @ endl @ ''Usage: client_example <sensor_hostname> [<udp_destination>]'' @
     endl @ endl @ ''<udp_destination> is optional: leave blank for '' @
     ''automatic destination detection'' @ endl"

definition lv_start :: "('b, 'p) sdk \<Rightarrow> ('b, 'p) lv_state" where
  "lv_start k =
     \<lparr>lv_packet_buf = [], lv_scan = new_scan 0 0, lv_batcher = ScanBatcher k 0,
      lv_cloud_xyz = None, lv_cloud_key = False, lv_cerr = [], lv_calls = []\<rparr>"

text \<open>
  \<^verbatim>\<open>main\<close> of \<^verbatim>\<open>lidar_view_example\<close>, with \<open>argv\<close> the list
  \<^verbatim>\<open>argv[0], ..., argv[argc - 1]\<close>, so that \<^verbatim>\<open>argc\<close> is its length. Of the
  visualizer, the model keeps what the loop hands to its cloud.
\<close>

definition lidar_view_main ::
  "('b, 'p) sdk \<Rightarrow> world \<Rightarrow> string list \<Rightarrow> ('b, 'p) lv_state run" where
  "lidar_view_main k wld argv =
     (let argc = length argv; s0 = lv_start k in
      if argc \<noteq> 2 \<and> argc \<noteq> 3
      then Exited (if argc = 1 then EXIT_SUCCESS else EXIT_FAILURE)
             (s0\<lparr>lv_cerr := lv_cerr s0 @ usage k\<rparr>)
      else
        let sensor_hostname = argv ! 1;
            data_destination = (if argc = 3 then argv ! 2 else []);
            s1 = s0\<lparr>lv_cerr := lv_cerr s0 @ ''Ouster client example '' @ SDK_VERSION k @ endl @
                    ''Connecting to '' @ dquote @ sensor_hostname @ dquote @ ''...'' @ endl\<rparr>
        in if \<not> init_client wld sensor_hostname data_destination
           then lv_FATAL ''Failed to connect'' s1
           else
             let info = metadata wld;
                 s2 = s1\<lparr>lv_cerr := lv_cerr s1 @ ''Connection to sensor succeeded'' @ endl @
                        ''Gathering metadata...'' @ endl @ banner info,
                      lv_batcher := ScanBatcher k (columns_per_frame info),
                      lv_packet_buf := replicate UDP_BUF_SIZE 0,
                      lv_scan := new_scan (columns_per_frame info) (pixels_per_column info)\<rparr>
             in lv_loop k info (events wld) s2)"

section \<open>view\_tigr: the two threads and the lock\<close>

text \<open>
  The bitmap \<^verbatim>\<open>app.bmp\<close> is shared by the acquisition thread (\<^verbatim>\<open>render_thread\<close>) and
  the display loop of \<^verbatim>\<open>main\<close>. What a thread does to the shared bitmap and to the
  mutex \<^verbatim>\<open>app.lock\<close> is a sequence of accesses: taking the mutex, releasing it, one
  write of a pixel of the bitmap, one read of a pixel of the bitmap.
\<close>

datatype access = Lock | Unlock | Write "Tigr \<Rightarrow> fault + Tigr" | Read nat

datatype thread = Acquisition | Display

text \<open>The pixel write of \<^verbatim>\<open>print_range\<close> at the cursor.\<close>

definition probe_write :: "tigr_mouse_t \<Rightarrow> Tigr \<Rightarrow> fault + Tigr" where
  "probe_write m bmp =
     write_pix bmp (mouse_y m * bmp_w bmp + mouse_x m)
       (\<lambda>p. p\<lparr>pix_r := 0xFF, pix_g := 0, pix_b := 0, pix_a := 255\<rparr>)"

text \<open>
  The accesses of one frame write of \<^verbatim>\<open>render_thread\<close>, in program order:
  \<^verbatim>\<open>pthread_mutex_lock\<close>, the pixel writes of the second pass of \<^verbatim>\<open>scan_to_bmp\<close> (the
  first pass reads the scan only), the pixel write of \<^verbatim>\<open>print_range\<close> when the button
  is down and the cursor inside the scan, \<^verbatim>\<open>pthread_mutex_unlock\<close>.
\<close>

definition frame_write_accesses :: "LidarScan \<Rightarrow> tigr_mouse_t \<Rightarrow> access list" where
  "frame_write_accesses sc m =
     [Lock] @
     map (\<lambda>p. Write (shade_pixel (field sc RANGE) (fst (scan_minmax sc RANGE))
                       (snd (scan_minmax sc RANGE)) (fst p) (snd p)))
       (List.product [0..<scan_w sc] [0..<scan_h sc]) @
     (if mouse_btn m \<noteq> 0 \<and> \<not> (mouse_x m < 0 \<or> mouse_x m \<ge> int (scan_w sc)) \<and>
         \<not> (mouse_y m < 0 \<or> mouse_y m \<ge> int (scan_h sc))
      then [Write (probe_write m)] else []) @
     [Unlock]"

text \<open>
  The accesses of one iteration of the display loop: \<^verbatim>\<open>pthread_mutex_lock\<close>, the
  reads of \<^verbatim>\<open>tigrBlit\<close> (\<open>n\<close> pixels), \<^verbatim>\<open>pthread_mutex_unlock\<close>.
\<close>

definition blit_accesses :: "nat \<Rightarrow> access list" where
  "blit_accesses n = [Lock] @ map Read [0..<n] @ [Unlock]"

text \<open>The writes of a sequence of accesses, run one after the other on a bitmap.\<close>

fun run_writes :: "access list \<Rightarrow> Tigr \<Rightarrow> fault + Tigr" where
  "run_writes [] bmp = Inr bmp"
| "run_writes (Write f # as) bmp = and_then (f bmp) (run_writes as)"
| "run_writes (a # as) bmp = run_writes as bmp"

text \<open>
  A configuration of the two threads: who holds the mutex, the shared bitmap, the
  accesses that each thread has still to make in its current frame write or blit (none
  when it is elsewhere in its loop), and the pixels that the blit has copied.
\<close>

record config =
  mutex :: "thread option"
  frame :: Tigr
  pc_acq :: "access list"
  pc_disp :: "access list"
  screen :: "TPixel list"

text \<open>
  One step of one thread, the other standing still. \<^verbatim>\<open>pthread_mutex_lock\<close> returns only
  when the mutex is free. A thread that is outside its frame write (its blit) enters the
  next one: the acquisition thread with any scan and mouse state, the display loop with any
  number of pixels. A pixel write that faults ends the process, so it is no step.
\<close>

inductive step :: "config \<Rightarrow> config \<Rightarrow> bool" where
  acq_enter: "pc_acq c = [] \<Longrightarrow> step c (c\<lparr>pc_acq := frame_write_accesses sc m\<rparr>)"
| acq_lock: "pc_acq c = Lock # as \<Longrightarrow> mutex c = None \<Longrightarrow>
     step c (c\<lparr>mutex := Some Acquisition, pc_acq := as\<rparr>)"
| acq_write: "pc_acq c = Write f # as \<Longrightarrow> f (frame c) = Inr bmp' \<Longrightarrow>
     step c (c\<lparr>frame := bmp', pc_acq := as\<rparr>)"
| acq_unlock: "pc_acq c = Unlock # as \<Longrightarrow> step c (c\<lparr>mutex := None, pc_acq := as\<rparr>)"
| disp_enter: "pc_disp c = [] \<Longrightarrow> step c (c\<lparr>pc_disp := blit_accesses n\<rparr>)"
| disp_lock: "pc_disp c = Lock # as \<Longrightarrow> mutex c = None \<Longrightarrow>
     step c (c\<lparr>mutex := Some Display, pc_disp := as\<rparr>)"
| disp_read: "pc_disp c = Read i # as \<Longrightarrow>
     step c (c\<lparr>screen := (screen c)[i := pix (frame c) ! i], pc_disp := as\<rparr>)"
| disp_unlock: "pc_disp c = Unlock # as \<Longrightarrow> step c (c\<lparr>mutex := None, pc_disp := as\<rparr>)"

text \<open>
  The configurations that the two threads can reach from a start in which the mutex is
  free and both threads are outside. (\<^verbatim>\<open>app.lock\<close> is set to zero with the rest of
  \<^verbatim>\<open>app\<close>; the model takes that to be a free mutex.)
\<close>

inductive reachable :: "config \<Rightarrow> bool" where
  start: "mutex c = None \<Longrightarrow> pc_acq c = [] \<Longrightarrow> pc_disp c = [] \<Longrightarrow> reachable c"
| after: "reachable c \<Longrightarrow> step c c' \<Longrightarrow> reachable c'"

text \<open>
  A thread is between its lock and its unlock when the accesses it has still to make end
  with the one \<open>Unlock\<close> and hold no \<open>Lock\<close>.
\<close>

definition holding :: "access list \<Rightarrow> bool" where
  "holding as = (as \<noteq> [] \<and> last as = Unlock \<and> Lock \<notin> set as \<and> Unlock \<notin> set (butlast as))"

text \<open>
  The invariant: each thread is outside, about to take the mutex for the accesses of one
  frame write (one blit), or between its lock and its unlock; and it holds the mutex in
  the last case only.
\<close>

definition well_placed :: "access list \<Rightarrow> bool" where
  "well_placed as = (as = [] \<or> holding as \<or> (\<exists>bs. as = Lock # bs \<and> holding bs))"

definition lock_invariant :: "config \<Rightarrow> bool" where
  "lock_invariant c =
     (well_placed (pc_acq c) \<and> well_placed (pc_disp c) \<and>
      (mutex c = Some Acquisition) = holding (pc_acq c) \<and>
      (mutex c = Some Display) = holding (pc_disp c))"

section \<open>Call sequences\<close>

text \<open>
  Whether, in a list of calls, the batcher is called somewhere after a packet read that
  has failed.
\<close>

fun batched_after_failed_read :: "sdk_call list \<Rightarrow> bool" where
  "batched_after_failed_read [] = False"
| "batched_after_failed_read (c # cs) =
     ((c = Read_lidar_packet False \<and>
        (Batch_to_scan True \<in> set cs \<or> Batch_to_scan False \<in> set cs))
      \<or> batched_after_failed_read cs)"

section \<open>Example inputs\<close>

text \<open>
  A scan of two columns and two rows, its image in a fresh bitmap, the same image with the
  probe at column 1, row 1, and a process state that holds the scan with the button down there.
\<close>

definition example_scan :: LidarScan where
  "example_scan = \<lparr>scan_w = 2, scan_h = 2, field = (\<lambda>f y x. [[5, 10], [1005, 400]] ! y ! x)\<rparr>"

definition example_sdk :: "(unit, unit) sdk" where
  "example_sdk =
     \<lparr>SDK_VERSION = ''0.0.0'', SDK_VERSION_FULL = ''0.0.0-full'', BUILD_SYSTEM = ''cmake'',
      ScanBatcher = (\<lambda>n. ()), batch_to_scan = (\<lambda>b p s. (True, b, example_scan)),
      complete = (\<lambda>s w. True), cartesian = (\<lambda>s. ())\<rparr>"

text \<open>The same SDK with a batcher that delivers a scan of zeros.\<close>

definition example_blank_sdk :: "(unit, unit) sdk" where
  "example_blank_sdk = example_sdk\<lparr>batch_to_scan := (\<lambda>b p s. (True, b, new_scan 2 2))\<rparr>"

definition example_state :: "unit view_state" where
  "example_state =
     (app_start example_sdk)
       \<lparr>app_w := 2, app_h := 2, app_bmp := tigrBitmap 2 2, scan := example_scan,
        app_mouse := \<lparr>mouse_btn = 1, mouse_up = 0, mouse_down = 0, mouse_x = 1, mouse_y = 1\<rparr>\<rparr>"

definition example_shaded :: Tigr where
  "example_shaded =
     \<lparr>bmp_w = 2, bmp_h = 2, pix =
       [\<lparr>pix_r = 0, pix_g = 0, pix_b = 0, pix_a = 255\<rparr>,
        \<lparr>pix_r = 1, pix_g = 1, pix_b = 1, pix_a = 255\<rparr>,
        \<lparr>pix_r = 255, pix_g = 255, pix_b = 255, pix_a = 255\<rparr>,
        \<lparr>pix_r = 100, pix_g = 100, pix_b = 100, pix_a = 255\<rparr>]\<rparr>"

definition example_probed :: Tigr where
  "example_probed =
     \<lparr>bmp_w = 2, bmp_h = 2, pix =
       [\<lparr>pix_r = 0, pix_g = 0, pix_b = 0, pix_a = 255\<rparr>,
        \<lparr>pix_r = 1, pix_g = 1, pix_b = 1, pix_a = 255\<rparr>,
        \<lparr>pix_r = 255, pix_g = 255, pix_b = 255, pix_a = 255\<rparr>,
        \<lparr>pix_r = 0xFF, pix_g = 0, pix_b = 0, pix_a = 255\<rparr>]\<rparr>"

text \<open>
  The same scan with the channel value \<open>2^32 - 1\<close> at column 1, row 1, its image in a
  fresh bitmap, and that image with the probe there.
\<close>

definition example_high_scan :: LidarScan where
  "example_high_scan =
     \<lparr>scan_w = 2, scan_h = 2, field = (\<lambda>f y x. [[5, 10], [1005, 4294967295]] ! y ! x)\<rparr>"

definition example_high_shaded :: Tigr where
  "example_high_shaded =
     \<lparr>bmp_w = 2, bmp_h = 2, pix =
       [\<lparr>pix_r = 1, pix_g = 1, pix_b = 1, pix_a = 255\<rparr>,
        \<lparr>pix_r = 2, pix_g = 2, pix_b = 2, pix_a = 255\<rparr>,
        \<lparr>pix_r = 255, pix_g = 255, pix_b = 255, pix_a = 255\<rparr>,
        \<lparr>pix_r = 0, pix_g = 0, pix_b = 0, pix_a = 255\<rparr>]\<rparr>"

definition example_high_probed :: Tigr where
  "example_high_probed =
     \<lparr>bmp_w = 2, bmp_h = 2, pix =
       [\<lparr>pix_r = 1, pix_g = 1, pix_b = 1, pix_a = 255\<rparr>,
        \<lparr>pix_r = 2, pix_g = 2, pix_b = 2, pix_a = 255\<rparr>,
        \<lparr>pix_r = 255, pix_g = 255, pix_b = 255, pix_a = 255\<rparr>,
        \<lparr>pix_r = 0xFF, pix_g = 0, pix_b = 0, pix_a = 255\<rparr>]\<rparr>"

definition example_info :: sensor_info where
  "example_info =
     \<lparr>fw_rev = ''v2.3.0'', sn = ''992000000001'', prod_line = ''OS-1-64'',
      columns_per_frame = 2, pixels_per_column = 2, column_window = (0, 1)\<rparr>"

text \<open>
  An event with the given error, lidar and IMU status and the given outcome of the lidar
  read; the cursor is at column 1, row 1 with the button down.
\<close>

definition example_event :: "bool \<Rightarrow> bool \<Rightarrow> bool \<Rightarrow> bool \<Rightarrow> sensor_event" where
  "example_event err lidar imu ok =
     \<lparr>ev_state = \<lparr>CLIENT_ERROR = err, LIDAR_DATA = lidar, IMU_DATA = imu\<rparr>,
      ev_lidar_ok = ok, ev_lidar_buf = [1, 2, 3], ev_imu_ok = True, ev_imu_buf = [4, 5],
      ev_mouse = \<lparr>mouse_btn = 1, mouse_up = 0, mouse_down = 0, mouse_x = 1, mouse_y = 1\<rparr>\<rparr>"

text \<open>A poll that reports IMU data only, followed by a read of the IMU packet that fails.\<close>

definition example_imu_failure :: sensor_event where
  "example_imu_failure = (example_event False False True True)\<lparr>ev_imu_ok := False\<rparr>"

text \<open>A sensor that answers to the name \<open>os-1\<close> only, and whose first poll reports an error.\<close>

definition example_world :: world where
  "example_world =
     \<lparr>init_client = (\<lambda>host dest. host = ''os-1''), metadata = example_info,
      events = [example_event True False False False, example_event False True True True]\<rparr>"

definition example_start :: config where
  "example_start =
     \<lparr>mutex = None, frame = tigrBitmap 2 2, pc_acq = [], pc_disp = [],
      screen = pix (tigrBitmap 2 2)\<rparr>"

text \<open>
  The acquisition thread has taken the mutex for a frame write of the example scan and is
  about to write its first pixel; the display loop is about to take the mutex.
\<close>

definition example_writing :: config where
  "example_writing =
     example_start
       \<lparr>mutex := Some Acquisition,
        pc_acq := tl (frame_write_accesses example_scan (app_mouse example_state)),
        pc_disp := blit_accesses 4\<rparr>"

text \<open>The other way round: the display loop is about to read its first pixel.\<close>

definition example_reading :: config where
  "example_reading =
     example_start
       \<lparr>mutex := Some Display,
        pc_acq := frame_write_accesses example_scan (app_mouse example_state),
        pc_disp := tl (blit_accesses 4)\<rparr>"

section \<open>Properties of the loops\<close>

lemma and_then_Inr [simp]: "and_then (Inr v) k = k v"
  by (simp add: and_then_def)

lemma and_then_Inl [simp]: "and_then (Inl e) k = Inl e"
  by (simp add: and_then_def)

lemma and_then_eq_Inr:
  "and_then m k = Inr r \<longleftrightarrow> (\<exists>v. m = Inr v \<and> k v = Inr r)"
  by (cases m) simp_all

lemma and_then_eq_Inl:
  "and_then m k = Inl e \<longleftrightarrow> m = Inl e \<or> (\<exists>v. m = Inr v \<and> k v = Inl e)"
  by (cases m) auto

lemma for_each_append:
  "for_each (as @ bs) body st = and_then (for_each as body st) (for_each bs body)"
  by (induction as arbitrary: st) (simp_all add: and_then_def split: sum.splits)

lemma for_each_map:
  "for_each (map g as) body st = for_each as (\<lambda>i. body (g i)) st"
  by (induction as arbitrary: st) (simp_all add: and_then_def split: sum.splits)

lemma for_each_product:
  "for_each xs (\<lambda>x. for_each ys (body x)) st =
   for_each (List.product xs ys) (\<lambda>p. body (fst p) (snd p)) st"
proof (induction xs arbitrary: st)
  case Nil
  show ?case by simp
next
  case (Cons x xs)
  have "for_each (map (Pair x) ys) (\<lambda>p. body (fst p) (snd p)) st = for_each ys (body x) st"
    by (simp add: for_each_map)
  with Cons show ?case
    by (simp add: for_each_append and_then_def split: sum.splits)
qed

lemma for_each_fault_origin:
  "for_each is body st = Inl e \<Longrightarrow> \<exists>i\<in>set is. \<exists>s. body i s = Inl e"
proof (induction "is" arbitrary: st)
  case Nil
  then show ?case by simp
next
  case (Cons i "is")
  then show ?case
    by (cases "body i st") (auto simp: and_then_def)
qed

lemma for_each_Inr_post:
  assumes "for_each is body st = Inr st'"
    and "I st"
    and step: "\<And>i s s'. i \<in> set is \<Longrightarrow> I s \<Longrightarrow> body i s = Inr s' \<Longrightarrow> I s' \<and> Q i s'"
    and keep: "\<And>i j s s'. i \<in> set is \<Longrightarrow> j \<in> set is \<Longrightarrow> I s \<Longrightarrow> Q i s \<Longrightarrow> body j s = Inr s' \<Longrightarrow> Q i s'"
  shows "I st' \<and> (\<forall>i\<in>set is. Q i st')"
proof -
  have "for_each js body s = Inr st' \<Longrightarrow> I s \<Longrightarrow> set js \<subseteq> set is \<Longrightarrow> (\<forall>i\<in>D. Q i s) \<Longrightarrow> D \<subseteq> set is
        \<Longrightarrow> I st' \<and> (\<forall>i\<in>D \<union> set js. Q i st')" for js s D
  proof (induction js arbitrary: s D)
    case Nil
    then show ?case by simp
  next
    case (Cons j js)
    from Cons.prems(1) obtain s1 where b: "body j s = Inr s1" and r: "for_each js body s1 = Inr st'"
      by (auto simp: and_then_eq_Inr)
    from Cons.prems have j: "j \<in> set is" by simp
    from step [OF j Cons.prems(2) b] have I1: "I s1" and Qj: "Q j s1" by simp_all
    have D1: "\<forall>i\<in>insert j D. Q i s1"
      using keep [OF _ j Cons.prems(2) _ b] Cons.prems(4,5) Qj by blast
    have "I st' \<and> (\<forall>i\<in>insert j D \<union> set js. Q i st')"
      using Cons.IH [OF r I1 _ D1] Cons.prems(3,5) j by simp
    then show ?case by simp
  qed
  from this [of "is" st "{}"] assms(1,2) show ?thesis by simp
qed

lemma for_each_total:
  assumes "I st"
    and "distinct is"
    and step: "\<And>i s. i \<in> set is \<Longrightarrow> I s \<Longrightarrow> \<exists>s'. body i s = Inr s' \<and> I s' \<and> Q i s'"
    and keep: "\<And>i j s s'. i \<in> set is \<Longrightarrow> j \<in> set is \<Longrightarrow> i \<noteq> j \<Longrightarrow> I s \<Longrightarrow> Q i s
                 \<Longrightarrow> body j s = Inr s' \<Longrightarrow> Q i s'"
  shows "\<exists>st'. for_each is body st = Inr st' \<and> I st' \<and> (\<forall>i\<in>set is. Q i st')"
proof -
  have "I s \<Longrightarrow> distinct js \<Longrightarrow> set js \<subseteq> set is \<Longrightarrow> (\<forall>i\<in>D. Q i s) \<Longrightarrow> D \<subseteq> set is \<Longrightarrow> D \<inter> set js = {}
        \<Longrightarrow> \<exists>st'. for_each js body s = Inr st' \<and> I st' \<and> (\<forall>i\<in>D \<union> set js. Q i st')" for js s D
  proof (induction js arbitrary: s D)
    case Nil
    then show ?case by simp
  next
    case (Cons j js)
    from Cons.prems have j: "j \<in> set is" by simp
    from step [OF j Cons.prems(1)] obtain s1 where b: "body j s = Inr s1" and I1: "I s1" and Qj: "Q j s1"
      by blast
    have jD: "j \<notin> D" using Cons.prems(6) by auto
    have D1: "\<forall>i\<in>insert j D. Q i s1"
      using keep [OF _ j _ Cons.prems(1) _ b] Cons.prems(4,5) Qj jD by blast
    have "\<exists>st'. for_each js body s1 = Inr st' \<and> I st' \<and> (\<forall>i\<in>insert j D \<union> set js. Q i st')"
      using Cons.IH [OF I1 _ _ D1] Cons.prems(2,3,5,6) j by auto
    with b show ?case by simp
  qed
  from this [of st "is" "{}"] assms(1,2) show ?thesis by simp
qed


lemma sint_eq_uint_small: "sint v = uint v" if "uint (v :: 32 word) < 2 ^ 31"
proof -
  have "sint v = signed_take_bit 31 (uint v)"
    by (simp add: sint_uint)
  also have "\<dots> = uint v"
  proof (rule signed_take_bit_int_eq_self)
    show "- (2 ^ 31) \<le> uint v"
      by (rule order_trans [of _ 0]) simp_all
    show "uint v < 2 ^ 31" by (fact that)
  qed
  finally show ?thesis .
qed

lemma to_int32_bounds: "INT32_MIN \<le> to_int32 v \<and> to_int32 v \<le> INT32_MAX"
  using sint_ge [of v] sint_lt [of v] by (simp add: to_int32_def INT32_MIN_def INT32_MAX_def)

lemma fold_product:
  "fold (\<lambda>x. fold (g x) ys) xs = fold (\<lambda>p. g (fst p) (snd p)) (List.product xs ys)"
proof (induction xs)
  case Nil
  show ?case by simp
next
  case (Cons x xs)
  have "fold (\<lambda>p. g (fst p) (snd p)) (map (Pair x) ys) = fold (g x) ys"
    by (simp add: fold_map comp_def)
  with Cons show ?case by simp
qed

lemma fold_minmax_step:
  "fold (\<lambda>p. minmax_step img (fst p) (snd p)) ps (a, b) =
     (fold min (map (\<lambda>p. to_int32 (img (snd p) (fst p))) ps) a,
      fold max (map (\<lambda>p. to_int32 (img (snd p) (fst p))) ps) b)"
  by (induction ps arbitrary: a b) (auto simp: minmax_step_def Let_def min_def max_def)


lemma fold_min_eq:
  assumes "m \<in> set vs" and "\<forall>v\<in>set vs. m \<le> v" and "m \<le> (a::int)"
  shows "fold min vs a = m"
proof -
  have "fold min vs a = Min (set (a # vs))"
    by (simp only: Min.set_eq_fold)
  also have "\<dots> = m"
    by (rule Min_eqI) (use assms in auto)
  finally show ?thesis .
qed

lemma fold_max_eq:
  assumes "m \<in> set vs" and "\<forall>v\<in>set vs. v \<le> m" and "(a::int) \<le> m"
  shows "fold max vs a = m"
proof -
  have "fold max vs a = Max (set (a # vs))"
    by (simp only: Max.set_eq_fold)
  also have "\<dots> = m"
    by (rule Max_eqI) (use assms in auto)
  finally show ?thesis .
qed

lemma scan_minmax_eq:
  assumes lo: "\<forall>x < scan_w s. \<forall>y < scan_h s. mn \<le> to_int32 (field s f y x)"
    and hi: "\<forall>x < scan_w s. \<forall>y < scan_h s. to_int32 (field s f y x) \<le> mx"
    and mn_at: "\<exists>x < scan_w s. \<exists>y < scan_h s. to_int32 (field s f y x) = mn"
    and mx_at: "\<exists>x < scan_w s. \<exists>y < scan_h s. to_int32 (field s f y x) = mx"
  shows "scan_minmax s f = (mn, mx)"
proof -
  let ?ps = "List.product [0..<scan_w s] [0..<scan_h s]"
  let ?g = "\<lambda>p. to_int32 (field s f (snd p) (fst p))"
  let ?vs = "map ?g ?ps"
  have mem: "to_int32 (field s f y x) \<in> set ?vs" if "x < scan_w s" "y < scan_h s" for x y
  proof -
    from that have "(x, y) \<in> set ?ps" by simp
    then have "?g (x, y) \<in> ?g ` set ?ps" by (rule imageI)
    then show ?thesis by simp
  qed
  have elim: "\<exists>x < scan_w s. \<exists>y < scan_h s. v = to_int32 (field s f y x)" if "v \<in> set ?vs" for v
    using that by auto blast
  have "mn \<in> set ?vs" using mn_at mem by blast
  moreover have "\<forall>v\<in>set ?vs. mn \<le> v" using lo elim by blast
  moreover have "mn \<le> INT32_MAX"
    using mn_at to_int32_bounds by blast
  ultimately have a: "fold min ?vs INT32_MAX = mn" by (rule fold_min_eq)
  have "mx \<in> set ?vs" using mx_at mem by blast
  moreover have "\<forall>v\<in>set ?vs. v \<le> mx" using hi elim by blast
  moreover have "INT32_MIN \<le> mx"
    using mx_at to_int32_bounds by blast
  ultimately have b: "fold max ?vs INT32_MIN = mx" by (rule fold_max_eq)
  show ?thesis
    unfolding scan_minmax_def fold_product fold_minmax_step a b ..
qed

lemma sdiv_nonneg: "0 \<le> a \<Longrightarrow> 0 < d \<Longrightarrow> a sdiv d = a div (d::int)"
  by (simp add: signed_divide_int_def sgn_if)

text \<open>The quotient stored by the second pass, when nothing overflows.\<close>

lemma quotient_bounds:
  assumes "mn \<le> v" "v \<le> mx" "mn < (mx::int)"
  shows "0 \<le> (v - mn) * 255 div (mx - mn)" and "(v - mn) * 255 div (mx - mn) \<le> 255"
proof -
  show "0 \<le> (v - mn) * 255 div (mx - mn)"
    using assms by (simp add: pos_imp_zdiv_nonneg_iff)
  have "(v - mn) * 255 \<le> 255 * (mx - mn)" using assms by simp
  then have "(v - mn) * 255 div (mx - mn) \<le> 255 * (mx - mn) div (mx - mn)"
    by (rule zdiv_mono1) (use assms in simp)
  also have "\<dots> = 255"
    using assms nonzero_mult_div_cancel_right [of "mx - mn" 255] by (simp add: mult.commute)
  finally show "(v - mn) * 255 div (mx - mn) \<le> 255" .
qed

lemma int32_of_Inr: "INT32_MIN \<le> v \<Longrightarrow> v \<le> INT32_MAX \<Longrightarrow> int32_of v = Inr v"
  by (simp add: int32_of_def)

text \<open>The arithmetic of one pixel, when the range is positive and small enough.\<close>

lemma shade_arith:
  assumes "mn \<le> v" "v \<le> mx" "mn < mx" "mx - mn \<le> 8421504"
    and "INT32_MIN \<le> v" "v \<le> INT32_MAX"
  shows "and_then (int32_of (v - mn)) (\<lambda>v1.
         and_then (int32_of (v1 * 255)) (\<lambda>v2.
         and_then (int32_of (mx - mn)) (\<lambda>d.
         and_then (int32_div v2 d) k))) = k ((v - mn) * 255 div (mx - mn))"
proof -
  have 1: "int32_of (v - mn) = Inr (v - mn)"
    by (rule int32_of_Inr) (use assms in \<open>simp_all add: INT32_MIN_def INT32_MAX_def\<close>)
  have 2: "int32_of ((v - mn) * 255) = Inr ((v - mn) * 255)"
    by (rule int32_of_Inr) (use assms in \<open>simp_all add: INT32_MIN_def INT32_MAX_def\<close>)
  have 3: "int32_of (mx - mn) = Inr (mx - mn)"
    by (rule int32_of_Inr) (use assms in \<open>simp_all add: INT32_MIN_def INT32_MAX_def\<close>)
  let ?q = "(v - mn) * 255 div (mx - mn)"
  have q: "((v - mn) * 255) sdiv (mx - mn) = ?q"
    by (rule sdiv_nonneg) (use assms in simp_all)
  have lo: "INT32_MIN \<le> ?q"
    using quotient_bounds(1) [OF assms(1-3)] by (simp only: INT32_MIN_def)
  have hi: "?q \<le> INT32_MAX"
    using quotient_bounds(2) [OF assms(1-3)] by (simp only: INT32_MAX_def)
  have "mx - mn \<noteq> 0" using assms by simp
  then have 4: "int32_div ((v - mn) * 255) (mx - mn) = Inr ?q"
    unfolding int32_div_def q using int32_of_Inr [OF lo hi] by simp
  show ?thesis
    by (simp only: 1 2 3 4 and_then_Inr)
qed

lemma shade_pixel_Inr:
  assumes "mn \<le> to_int32 (img y x)" "to_int32 (img y x) \<le> mx" "mn < mx"
    and "mx - mn \<le> 8421504"
    and "0 \<le> int y * bmp_w b + int x" "nat (int y * bmp_w b + int x) < length (pix b)"
  shows "shade_pixel img mn mx x y b =
     Inr (b\<lparr>pix := (pix b)[nat (int y * bmp_w b + int x) :=
        (pix b ! nat (int y * bmp_w b + int x))
          \<lparr>pix_r := to_uint8 ((to_int32 (img y x) - mn) * 255 div (mx - mn)),
           pix_g := to_uint8 ((to_int32 (img y x) - mn) * 255 div (mx - mn)),
           pix_b := to_uint8 ((to_int32 (img y x) - mn) * 255 div (mx - mn)),
           pix_a := 255\<rparr>]\<rparr>)"
  unfolding shade_pixel_def
  using assms(5,6) to_int32_bounds [of "img y x"]
  by (simp only: shade_arith [OF assms(1-4)] write_pix_def) simp

lemma shade_pixel_no_overflow:
  assumes "mn \<le> to_int32 (img y x)" "to_int32 (img y x) \<le> mx" "mx - mn \<le> 8421504"
  shows "shade_pixel img mn mx x y b \<noteq> Inl Signed_overflow"
proof (cases "mn = mx")
  case True
  with assms have "to_int32 (img y x) - mn = 0" by simp
  then show ?thesis
    using True by (simp add: shade_pixel_def int32_of_def int32_div_def INT32_MIN_def INT32_MAX_def)
next
  case False
  with assms have lt: "mn < mx" by simp
  show ?thesis
    unfolding shade_pixel_def
    using to_int32_bounds [of "img y x"]
    by (simp only: shade_arith [OF assms(1,2) lt assms(3)] write_pix_def) simp
qed

lemma shade_pixel_writes:
  assumes "shade_pixel img mn mx x y b = Inr b'"
  shows "\<exists>p. 0 \<le> int y * bmp_w b + int x \<and> nat (int y * bmp_w b + int x) < length (pix b)
            \<and> pix_a p = 255
            \<and> b' = b\<lparr>pix := (pix b)[nat (int y * bmp_w b + int x) := p]\<rparr>"
proof -
  from assms obtain v3 where
    w: "write_pix b (int y * bmp_w b + int x)
          (\<lambda>p. p\<lparr>pix_r := to_uint8 v3, pix_g := to_uint8 v3, pix_b := to_uint8 v3,
                 pix_a := 255\<rparr>) = Inr b'"
    by (auto simp: shade_pixel_def and_then_eq_Inr)
  let ?i = "int y * bmp_w b + int x"
  let ?p = "(pix b ! nat ?i)\<lparr>pix_r := to_uint8 v3, pix_g := to_uint8 v3, pix_b := to_uint8 v3,
                 pix_a := 255\<rparr>"
  from w have "0 \<le> ?i \<and> nat ?i < length (pix b) \<and> pix_a ?p = 255
      \<and> b' = b\<lparr>pix := (pix b)[nat ?i := ?p]\<rparr>"
    by (auto simp: write_pix_def split: if_splits)
  then show ?thesis by blast
qed


lemma scan_to_bmp_flat:
  "scan_to_bmp s f b =
     (case scan_minmax s f of (mn, mx) \<Rightarrow>
        for_each (List.product [0..<scan_w s] [0..<scan_h s])
          (\<lambda>p. shade_pixel (field s f) mn mx (fst p) (snd p)) b)"
  by (simp add: scan_to_bmp_def for_each_product)

lemma pixel_index_nat: "nat (int y * int w + int x) = y * w + x"
  by (simp add: nat_add_distrib nat_mult_distrib)

lemma pixel_index_less:
  assumes "x < w" "y < h"
  shows "y * w + x < w * (h::nat)"
proof -
  have "y * w + x < y * w + w" using assms by simp
  also have "\<dots> = (Suc y) * w" by simp
  also have "\<dots> \<le> h * w" using assms by (intro mult_le_mono1) simp
  finally show ?thesis by (simp add: mult.commute)
qed

lemma pixel_index_inj:
  assumes "x < w" "x' < w" "y * w + x = y' * w + (x'::nat)"
  shows "x = x' \<and> y = y'"
proof -
  have "x = (y * w + x) mod w" using assms(1) by simp
  also have "\<dots> = (y' * w + x') mod w" by (simp only: assms(3))
  also have "\<dots> = x'" using assms(2) by simp
  finally have x: "x = x'" .
  have "y = (y * w + x) div w" using assms(1) by simp
  also have "\<dots> = (y' * w + x') div w" by (simp only: assms(3))
  also have "\<dots> = y'" using assms(2) by simp
  finally have "y = y'" .
  with x show ?thesis by simp
qed

lemma uint_to_uint8: "0 \<le> q \<Longrightarrow> q \<le> 255 \<Longrightarrow> uint (to_uint8 q) = q"
  by (simp add: to_uint8_def uint_word_of_int_eq take_bit_int_eq_self)

text \<open>The pixel that the second pass stores for the value \<open>v\<close>.\<close>

lemma scan_to_bmp_pixels:
  assumes w: "bmp_w b = int (scan_w s)" and n: "scan_w s * scan_h s \<le> length (pix b)"
    and lo: "\<forall>x < scan_w s. \<forall>y < scan_h s. mn \<le> to_int32 (field s f y x)"
    and hi: "\<forall>x < scan_w s. \<forall>y < scan_h s. to_int32 (field s f y x) \<le> mx"
    and mn_at: "\<exists>x < scan_w s. \<exists>y < scan_h s. to_int32 (field s f y x) = mn"
    and mx_at: "\<exists>x < scan_w s. \<exists>y < scan_h s. to_int32 (field s f y x) = mx"
    and lt: "mn < mx" and small: "mx - mn \<le> 8421504"
  shows "\<exists>b'. scan_to_bmp s f b = Inr b' \<and> bmp_w b' = bmp_w b \<and> length (pix b') = length (pix b) \<and>
           (\<forall>x < scan_w s. \<forall>y < scan_h s.
              pix_r (pix b' ! (y * scan_w s + x)) =
                to_uint8 ((to_int32 (field s f y x) - mn) * 255 div (mx - mn)) \<and>
              pix_g (pix b' ! (y * scan_w s + x)) = pix_r (pix b' ! (y * scan_w s + x)) \<and>
              pix_b (pix b' ! (y * scan_w s + x)) = pix_r (pix b' ! (y * scan_w s + x)) \<and>
              pix_a (pix b' ! (y * scan_w s + x)) = 255)"
proof -
  let ?ps = "List.product [0..<scan_w s] [0..<scan_h s]"
  let ?body = "\<lambda>p. shade_pixel (field s f) mn mx (fst p) (snd p)"
  let ?I = "\<lambda>c. bmp_w c = bmp_w b \<and> length (pix c) = length (pix b)"
  let ?g = "\<lambda>p. to_uint8 ((to_int32 (field s f (snd p) (fst p)) - mn) * 255 div (mx - mn))"
  let ?Q = "\<lambda>p c. pix_r (pix c ! (snd p * scan_w s + fst p)) = ?g p \<and>
                  pix_g (pix c ! (snd p * scan_w s + fst p)) = ?g p \<and>
                  pix_b (pix c ! (snd p * scan_w s + fst p)) = ?g p \<and>
                  pix_a (pix c ! (snd p * scan_w s + fst p)) = 255"
  have mm: "scan_minmax s f = (mn, mx)"
    by (rule scan_minmax_eq [OF lo hi mn_at mx_at])
  have idx: "nat (int (snd p) * bmp_w c + int (fst p)) = snd p * scan_w s + fst p"
    if "?I c" for p c
    using that w by (simp add: pixel_index_nat)
  have inb: "snd p * scan_w s + fst p < length (pix b)" if "p \<in> set ?ps" for p
  proof -
    from that have "fst p < scan_w s" "snd p < scan_h s" by auto
    then have "snd p * scan_w s + fst p < scan_w s * scan_h s" by (rule pixel_index_less)
    with n show ?thesis by simp
  qed
  have step_eq: "?body p c = Inr (c\<lparr>pix := (pix c)[snd p * scan_w s + fst p :=
        (pix c ! (snd p * scan_w s + fst p))\<lparr>pix_r := ?g p, pix_g := ?g p, pix_b := ?g p,
           pix_a := 255\<rparr>]\<rparr>)"
    if p: "p \<in> set ?ps" and c: "?I c" for p c
  proof -
    from p have xy: "fst p < scan_w s" "snd p < scan_h s" by auto
    have 1: "mn \<le> to_int32 (field s f (snd p) (fst p))" using lo xy by blast
    have 2: "to_int32 (field s f (snd p) (fst p)) \<le> mx" using hi xy by blast
    have 3: "0 \<le> int (snd p) * bmp_w c + int (fst p)" using c w by simp
    have 4: "nat (int (snd p) * bmp_w c + int (fst p)) < length (pix c)"
      using inb [OF p] c by (simp add: idx)
    show ?thesis
      using shade_pixel_Inr [where img = "field s f" and x = "fst p" and y = "snd p" and b = c,
          OF 1 2 lt small 3 4]
      by (simp add: idx [OF c])
  qed
  have step: "\<exists>c'. ?body p c = Inr c' \<and> ?I c' \<and> ?Q p c'" if p: "p \<in> set ?ps" and c: "?I c" for p c
    using inb [OF p] c by (simp add: step_eq [OF p c])
  have keep: "?Q p c'"
    if p: "p \<in> set ?ps" and q: "q \<in> set ?ps" and ne: "p \<noteq> q" and c: "?I c" and Q: "?Q p c"
      and b: "?body q c = Inr c'" for p q c c'
  proof -
    from p q have "fst p < scan_w s" "fst q < scan_w s" by auto
    with ne have "snd p * scan_w s + fst p \<noteq> snd q * scan_w s + fst q"
      using pixel_index_inj [of "fst p" "scan_w s" "fst q" "snd p" "snd q"]
      by (auto simp: prod_eq_iff)
    with b Q show ?thesis
      by (auto simp: step_eq [OF q c])
  qed
  have "distinct ?ps" by (simp add: distinct_product)
  have "\<exists>b'. for_each ?ps ?body b = Inr b' \<and> ?I b' \<and> (\<forall>p\<in>set ?ps. ?Q p b')"
    by (rule for_each_total [where I = ?I and Q = ?Q, OF _ \<open>distinct ?ps\<close> step keep]) simp_all
  then obtain b' where r: "for_each ?ps ?body b = Inr b'" and I: "?I b'"
    and Q: "\<And>p. p \<in> set ?ps \<Longrightarrow> ?Q p b'"
    by blast
  have res: "scan_to_bmp s f b = Inr b'"
    by (simp add: scan_to_bmp_flat mm r)
  have "?Q (x, y) b'" if "x < scan_w s" "y < scan_h s" for x y
    by (rule Q) (use that in simp)
  then have px: "\<forall>x < scan_w s. \<forall>y < scan_h s.
              pix_r (pix b' ! (y * scan_w s + x)) =
                to_uint8 ((to_int32 (field s f y x) - mn) * 255 div (mx - mn)) \<and>
              pix_g (pix b' ! (y * scan_w s + x)) = pix_r (pix b' ! (y * scan_w s + x)) \<and>
              pix_b (pix b' ! (y * scan_w s + x)) = pix_r (pix b' ! (y * scan_w s + x)) \<and>
              pix_a (pix b' ! (y * scan_w s + x)) = 255"
    by simp
  from res I px show ?thesis by blast
qed


lemma shade_pixel_zero_range:
  "shade_pixel img c c x y b = Inl Division_by_zero" if "to_int32 (img y x) = c"
  using that to_int32_bounds [of "img y x"]
  by (simp add: shade_pixel_def int32_of_def int32_div_def INT32_MIN_def INT32_MAX_def)

lemma fold_min_le: "fold min vs (a::int) \<le> a \<and> (\<forall>v\<in>set vs. fold min vs a \<le> v)"
proof -
  have "fold min vs a = Min (set (a # vs))"
    by (simp only: Min.set_eq_fold)
  then show ?thesis by simp
qed

lemma fold_max_ge: "(a::int) \<le> fold max vs a \<and> (\<forall>v\<in>set vs. v \<le> fold max vs a)"
proof -
  have "fold max vs a = Max (set (a # vs))"
    by (simp only: Max.set_eq_fold)
  then show ?thesis by simp
qed

text \<open>The first pass returns a lower and an upper bound of the channel values.\<close>

lemma scan_minmax_bounds:
  assumes "scan_minmax s f = (mn, mx)" and "x < scan_w s" and "y < scan_h s"
  shows "mn \<le> to_int32 (field s f y x) \<and> to_int32 (field s f y x) \<le> mx"
proof -
  let ?ps = "List.product [0..<scan_w s] [0..<scan_h s]"
  let ?g = "\<lambda>p. to_int32 (field s f (snd p) (fst p))"
  from assms(1) have mn: "mn = fold min (map ?g ?ps) INT32_MAX"
    and mx: "mx = fold max (map ?g ?ps) INT32_MIN"
    by (simp_all add: scan_minmax_def fold_product fold_minmax_step)
  from assms(2,3) have "(x, y) \<in> set ?ps" by simp
  then have "?g (x, y) \<in> ?g ` set ?ps" by (rule imageI)
  then have "to_int32 (field s f y x) \<in> set (map ?g ?ps)" by simp
  with fold_min_le [of "map ?g ?ps" INT32_MAX] fold_max_ge [of INT32_MIN "map ?g ?ps"]
  show ?thesis unfolding mn mx by blast
qed

lemma product_Nil_right: "List.product xs [] = []"
  by (induction xs) simp_all

lemma scan_minmax_empty:
  "scan_w s = 0 \<or> scan_h s = 0 \<Longrightarrow> scan_minmax s f = (INT32_MAX, INT32_MIN)"
  by (auto simp: scan_minmax_def fold_product product_Nil_right)

text \<open>
  Claim C3. When the first pass of \<^verbatim>\<open>scan_to_bmp\<close> ends with \<open>max = min\<close>, which it
  does for every scan with at least one pixel whose channel values are all equal, the
  second pass divides by \<open>max - min = 0\<close> at its first pixel: no test of the divisor
  comes before the division, and \<^verbatim>\<open>scan_to_bmp\<close> ends in the fault
  \<open>Division_by_zero\<close>, whatever the bitmap.
\<close>

theorem zero_range_divides_by_zero:
  "(scan_minmax s f = (m, m) \<longrightarrow> scan_to_bmp s f b = Inl Division_by_zero) \<and>
   (0 < scan_w s \<and> 0 < scan_h s \<and> (\<forall>x < scan_w s. \<forall>y < scan_h s. field s f y x = c) \<longrightarrow>
      scan_minmax s f = (to_int32 c, to_int32 c))"
proof (intro conjI impI)
  assume mm: "scan_minmax s f = (m, m)"
  have ne: "0 < scan_w s \<and> 0 < scan_h s"
  proof (rule ccontr)
    assume "\<not> (0 < scan_w s \<and> 0 < scan_h s)"
    then have "scan_minmax s f = (INT32_MAX, INT32_MIN)"
      by (intro scan_minmax_empty) auto
    with mm show False by (auto simp: INT32_MAX_def INT32_MIN_def)
  qed
  then have w: "[0..<scan_w s] = 0 # [1..<scan_w s]" and h: "[0..<scan_h s] = 0 # [1..<scan_h s]"
    by (simp_all add: upt_conv_Cons)
  from scan_minmax_bounds [OF mm, of 0 0] ne have "to_int32 (field s f 0 0) = m"
    by simp
  then have "shade_pixel (field s f) m m 0 0 b = Inl Division_by_zero"
    by (rule shade_pixel_zero_range)
  then show "scan_to_bmp s f b = Inl Division_by_zero"
    by (simp add: scan_to_bmp_def mm w h)
next
  assume "0 < scan_w s \<and> 0 < scan_h s \<and> (\<forall>x < scan_w s. \<forall>y < scan_h s. field s f y x = c)"
  then show "scan_minmax s f = (to_int32 c, to_int32 c)"
    by (intro scan_minmax_eq) auto
qed

theorem zero_range_divides_by_zero_witness:
  "scan_minmax \<lparr>scan_w = 2, scan_h = 1, field = (\<lambda>f y x. 7)\<rparr> RANGE = (7, 7) \<and>
   scan_to_bmp \<lparr>scan_w = 2, scan_h = 1, field = (\<lambda>f y x. 7)\<rparr> RANGE (tigrBitmap 2 1)
     = Inl Division_by_zero"
proof -
  let ?s = "\<lparr>scan_w = 2, scan_h = 1, field = (\<lambda>f y x. 7)\<rparr>"
  have h: "0 < scan_w ?s \<and> 0 < scan_h ?s \<and>
      (\<forall>x < scan_w ?s. \<forall>y < scan_h ?s. field ?s RANGE y x = 7)"
    by simp
  have c: "to_int32 7 = 7"
    by (simp add: to_int32_def)
  from zero_range_divides_by_zero [where s = ?s and f = RANGE and c = 7] h
  have mm: "scan_minmax ?s RANGE = (7, 7)"
    unfolding c by blast
  with zero_range_divides_by_zero [where s = ?s and f = RANGE and m = 7 and b = "tigrBitmap 2 1"]
  show ?thesis by blast
qed

lemma to_int32_uint: "uint v < 2 ^ 31 \<Longrightarrow> to_int32 v = uint v"
  by (simp add: to_int32_def sint_eq_uint_small)

lemma to_int32_cases:
  "to_int32 v = (if uint v < 2 ^ 31 then uint v else uint v - 2 ^ 32)"
proof (cases "uint v < 2 ^ 31")
  case True
  then show ?thesis by (simp add: to_int32_uint)
next
  case False
  have b: "bit (uint v) 31"
  proof (rule ccontr)
    assume "\<not> bit (uint v) 31"
    then have "take_bit 32 (uint v) = take_bit 31 (uint v)"
      by (simp add: take_bit_Suc_from_most [of 31, simplified])
    moreover have "take_bit 32 (uint v) = uint v"
      by (simp add: take_bit_int_eq_self_iff uint_bounded [of v, simplified])
    moreover have "take_bit 31 (uint v) < 2 ^ 31"
      by (rule take_bit_int_less_exp)
    ultimately show False using False by simp
  qed
  have t: "take_bit (Suc 31) (uint v) = uint v"
    using uint_bounded [of v] by (simp add: take_bit_int_eq_self_iff)
  have "sint v = signed_take_bit 31 (uint v)"
    by (simp add: sint_uint)
  also have "\<dots> = take_bit (Suc 31) (uint v) - 2 ^ Suc 31 * of_bool (bit (uint v) 31)"
    by (rule signed_take_bit_eq_take_bit_minus)
  also have "\<dots> = uint v - 2 ^ 32"
    using b by (simp only: t) simp
  finally show ?thesis using False by (simp add: to_int32_def)
qed

lemma scan_to_bmp_fault_origin:
  assumes "scan_to_bmp s f b = Inl e"
  shows "\<exists>x < scan_w s. \<exists>y < scan_h s. \<exists>c.
           shade_pixel (field s f) (fst (scan_minmax s f)) (snd (scan_minmax s f)) x y c = Inl e"
proof -
  obtain mn mx where mm: "scan_minmax s f = (mn, mx)" by (cases "scan_minmax s f")
  from assms have "for_each (List.product [0..<scan_w s] [0..<scan_h s])
          (\<lambda>p. shade_pixel (field s f) mn mx (fst p) (snd p)) b = Inl e"
    by (simp add: scan_to_bmp_flat mm)
  from for_each_fault_origin [OF this]
  obtain p c where "p \<in> set (List.product [0..<scan_w s] [0..<scan_h s])"
    and "shade_pixel (field s f) mn mx (fst p) (snd p) c = Inl e"
    by blast
  then show ?thesis
    by (auto simp: mm) blast
qed

text \<open>One pixel write of the second pass, for a value between the bounds.\<close>

lemma shade_pixel_store:
  assumes "mn \<le> to_int32 (img y x)" "to_int32 (img y x) \<le> mx" "mn < mx" "mx - mn \<le> 8421504"
    and "shade_pixel img mn mx x y c = Inr c'"
  shows "uint (pix_r (pix c' ! nat (int y * bmp_w c + int x))) =
           (to_int32 (img y x) - mn) * 255 div (mx - mn)"
proof -
  let ?i = "int y * bmp_w c + int x"
  from shade_pixel_writes [OF assms(5)] have i: "0 \<le> ?i" "nat ?i < length (pix c)"
    by auto
  from shade_pixel_Inr [where img = img and x = x and y = y and b = c, OF assms(1-4) i] assms(5) i
  have "pix_r (pix c' ! nat ?i) = to_uint8 ((to_int32 (img y x) - mn) * 255 div (mx - mn))"
    by auto
  moreover have "uint (to_uint8 ((to_int32 (img y x) - mn) * 255 div (mx - mn))) =
      (to_int32 (img y x) - mn) * 255 div (mx - mn)"
    by (rule uint_to_uint8) (rule quotient_bounds [OF assms(1-3)])+
  ultimately show ?thesis by simp
qed

lemma shade_pixel_one_pixel:
  assumes "shade_pixel img mn mx x y c = Inr c'"
  shows "length (pix c') = length (pix c) \<and>
         pix_a (pix c' ! nat (int y * bmp_w c + int x)) = 255 \<and>
         (\<forall>i < length (pix c). i \<noteq> nat (int y * bmp_w c + int x) \<longrightarrow> pix c' ! i = pix c ! i)"
  using shade_pixel_writes [OF assms] by auto

text \<open>
  Channel values below \<open>2^31\<close> keep their value as \<^verbatim>\<open>int32_t\<close>; the three lemmas below
  restate the facts about the two passes for such scans, in terms of the unsigned values.
\<close>

lemma uint_scan_minmax:
  assumes vals: "\<forall>x < scan_w s. \<forall>y < scan_h s. uint (field s f y x) < 2 ^ 31"
    and lo: "\<forall>x < scan_w s. \<forall>y < scan_h s. mn \<le> uint (field s f y x)"
    and hi: "\<forall>x < scan_w s. \<forall>y < scan_h s. uint (field s f y x) \<le> mx"
    and mn_at: "\<exists>x < scan_w s. \<exists>y < scan_h s. uint (field s f y x) = mn"
    and mx_at: "\<exists>x < scan_w s. \<exists>y < scan_h s. uint (field s f y x) = mx"
  shows "scan_minmax s f = (mn, mx)"
proof (rule scan_minmax_eq)
  have eq: "to_int32 (field s f y x) = uint (field s f y x)" if "x < scan_w s" "y < scan_h s" for x y
    using vals that by (simp add: to_int32_uint)
  show "\<forall>x < scan_w s. \<forall>y < scan_h s. mn \<le> to_int32 (field s f y x)"
    using lo eq by simp
  show "\<forall>x < scan_w s. \<forall>y < scan_h s. to_int32 (field s f y x) \<le> mx"
    using hi eq by simp
  show "\<exists>x < scan_w s. \<exists>y < scan_h s. to_int32 (field s f y x) = mn"
    using mn_at eq by auto
  show "\<exists>x < scan_w s. \<exists>y < scan_h s. to_int32 (field s f y x) = mx"
    using mx_at eq by auto
qed

lemma uint_scan_no_overflow:
  assumes vals: "\<forall>x < scan_w s. \<forall>y < scan_h s. uint (field s f y x) < 2 ^ 31"
    and lo: "\<forall>x < scan_w s. \<forall>y < scan_h s. mn \<le> uint (field s f y x)"
    and hi: "\<forall>x < scan_w s. \<forall>y < scan_h s. uint (field s f y x) \<le> mx"
    and mn_at: "\<exists>x < scan_w s. \<exists>y < scan_h s. uint (field s f y x) = mn"
    and mx_at: "\<exists>x < scan_w s. \<exists>y < scan_h s. uint (field s f y x) = mx"
    and small: "mx - mn \<le> 8421504"
  shows "scan_to_bmp s f b \<noteq> Inl Signed_overflow"
proof
  assume "scan_to_bmp s f b = Inl Signed_overflow"
  moreover have mm: "scan_minmax s f = (mn, mx)"
    by (rule uint_scan_minmax [OF vals lo hi mn_at mx_at])
  ultimately obtain x y c
    where xy: "x < scan_w s" "y < scan_h s"
      and "shade_pixel (field s f) mn mx x y c = Inl Signed_overflow"
    using scan_to_bmp_fault_origin [of s f b Signed_overflow] by auto
  moreover have "to_int32 (field s f y x) = uint (field s f y x)"
    using vals xy by (simp add: to_int32_uint)
  then have "shade_pixel (field s f) mn mx x y c \<noteq> Inl Signed_overflow"
    using lo hi xy small by (intro shade_pixel_no_overflow) auto
  ultimately show False by simp
qed

lemma uint_scan_pixels:
  assumes vals: "\<forall>x < scan_w s. \<forall>y < scan_h s. uint (field s f y x) < 2 ^ 31"
    and lo: "\<forall>x < scan_w s. \<forall>y < scan_h s. mn \<le> uint (field s f y x)"
    and hi: "\<forall>x < scan_w s. \<forall>y < scan_h s. uint (field s f y x) \<le> mx"
    and mn_at: "\<exists>x < scan_w s. \<exists>y < scan_h s. uint (field s f y x) = mn"
    and mx_at: "\<exists>x < scan_w s. \<exists>y < scan_h s. uint (field s f y x) = mx"
    and small: "mx - mn \<le> 8421504"
    and lt: "mn < mx"
    and w: "bmp_w b = int (scan_w s)" and n: "scan_w s * scan_h s \<le> length (pix b)"
  shows "\<exists>b'. scan_to_bmp s f b = Inr b' \<and>
           (\<forall>x < scan_w s. \<forall>y < scan_h s.
              uint (pix_r (pix b' ! (y * scan_w s + x))) =
                (uint (field s f y x) - mn) * 255 div (mx - mn) \<and>
              pix_g (pix b' ! (y * scan_w s + x)) = pix_r (pix b' ! (y * scan_w s + x)) \<and>
              pix_b (pix b' ! (y * scan_w s + x)) = pix_r (pix b' ! (y * scan_w s + x)))"
proof -
  have eq: "to_int32 (field s f y x) = uint (field s f y x)" if "x < scan_w s" "y < scan_h s" for x y
    using vals that by (simp add: to_int32_uint)
  have lo': "\<forall>x < scan_w s. \<forall>y < scan_h s. mn \<le> to_int32 (field s f y x)"
    using lo eq by simp
  have hi': "\<forall>x < scan_w s. \<forall>y < scan_h s. to_int32 (field s f y x) \<le> mx"
    using hi eq by simp
  have mn_at': "\<exists>x < scan_w s. \<exists>y < scan_h s. to_int32 (field s f y x) = mn"
    using mn_at eq by auto
  have mx_at': "\<exists>x < scan_w s. \<exists>y < scan_h s. to_int32 (field s f y x) = mx"
    using mx_at eq by auto
  from scan_to_bmp_pixels [OF w n lo' hi' mn_at' mx_at' lt small]
  obtain b' where r: "scan_to_bmp s f b = Inr b'"
    and P: "\<And>x y. x < scan_w s \<Longrightarrow> y < scan_h s \<Longrightarrow>
            pix_r (pix b' ! (y * scan_w s + x)) =
              to_uint8 ((to_int32 (field s f y x) - mn) * 255 div (mx - mn)) \<and>
            pix_g (pix b' ! (y * scan_w s + x)) = pix_r (pix b' ! (y * scan_w s + x)) \<and>
            pix_b (pix b' ! (y * scan_w s + x)) = pix_r (pix b' ! (y * scan_w s + x)) \<and>
            pix_a (pix b' ! (y * scan_w s + x)) = 255"
    by blast
  have "uint (pix_r (pix b' ! (y * scan_w s + x))) = (uint (field s f y x) - mn) * 255 div (mx - mn)
      \<and> pix_g (pix b' ! (y * scan_w s + x)) = pix_r (pix b' ! (y * scan_w s + x))
      \<and> pix_b (pix b' ! (y * scan_w s + x)) = pix_r (pix b' ! (y * scan_w s + x))"
    if xy: "x < scan_w s" "y < scan_h s" for x y
  proof -
    let ?v = "uint (field s f y x)"
    have b1: "mn \<le> ?v" and b2: "?v \<le> mx" using lo hi xy by auto
    have "uint (to_uint8 ((?v - mn) * 255 div (mx - mn))) = (?v - mn) * 255 div (mx - mn)"
      by (rule uint_to_uint8) (rule quotient_bounds [OF b1 b2 lt])+
    with P [OF xy] show ?thesis by (simp add: eq [OF xy])
  qed
  with r show ?thesis by blast
qed

text \<open>
  Claim C10. The channel values are read into \<^verbatim>\<open>int32_t\<close> and \<open>(value - min) * 255\<close> is
  computed in 32-bit signed arithmetic. For a scan whose channel values are all below
  \<open>2^31\<close>, with minimum \<open>mn\<close>, maximum \<open>mx\<close> and \<open>mx - mn \<le> (2^31 - 1) div 255\<close>: the first
  pass finds \<open>(mn, mx)\<close>; \<^verbatim>\<open>scan_to_bmp\<close> never ends in a signed overflow; when
  \<open>mn < mx\<close>, every pixel write of the second pass stores \<open>(v - mn) * 255 div (mx - mn)\<close>,
  \<open>v\<close> being the channel value at row \<open>y\<close> and column \<open>x\<close>, on whatever bitmap it
  succeeds; and on a bitmap that has the width of the scan and room for its pixels
  \<^verbatim>\<open>scan_to_bmp\<close> returns a bitmap whose pixel \<open>(x, y)\<close> holds that number in its three
  colour components.
\<close>

theorem int32_normalization_exact:
  assumes vals: "\<forall>x < scan_w s. \<forall>y < scan_h s. uint (field s f y x) < 2 ^ 31"
    and lo: "\<forall>x < scan_w s. \<forall>y < scan_h s. mn \<le> uint (field s f y x)"
    and hi: "\<forall>x < scan_w s. \<forall>y < scan_h s. uint (field s f y x) \<le> mx"
    and mn_at: "\<exists>x < scan_w s. \<exists>y < scan_h s. uint (field s f y x) = mn"
    and mx_at: "\<exists>x < scan_w s. \<exists>y < scan_h s. uint (field s f y x) = mx"
    and small: "mx - mn \<le> (2 ^ 31 - 1) div 255"
  shows "scan_minmax s f = (mn, mx) \<and>
         scan_to_bmp s f b \<noteq> Inl Signed_overflow \<and>
         (mn < mx \<longrightarrow>
            (\<forall>x < scan_w s. \<forall>y < scan_h s. \<forall>c c'.
               shade_pixel (field s f) mn mx x y c = Inr c' \<longrightarrow>
                 uint (pix_r (pix c' ! nat (int y * bmp_w c + int x))) =
                   (uint (field s f y x) - mn) * 255 div (mx - mn))) \<and>
         (mn < mx \<and> bmp_w b = int (scan_w s) \<and> scan_w s * scan_h s \<le> length (pix b) \<longrightarrow>
            (\<exists>b'. scan_to_bmp s f b = Inr b' \<and>
               (\<forall>x < scan_w s. \<forall>y < scan_h s.
                  uint (pix_r (pix b' ! (y * scan_w s + x))) =
                    (uint (field s f y x) - mn) * 255 div (mx - mn) \<and>
                  pix_g (pix b' ! (y * scan_w s + x)) = pix_r (pix b' ! (y * scan_w s + x)) \<and>
                  pix_b (pix b' ! (y * scan_w s + x)) = pix_r (pix b' ! (y * scan_w s + x)))))"
proof -
  have small': "mx - mn \<le> 8421504" using small by simp
  have "scan_minmax s f = (mn, mx)"
    by (rule uint_scan_minmax [OF vals lo hi mn_at mx_at])
  moreover have "scan_to_bmp s f b \<noteq> Inl Signed_overflow"
    by (rule uint_scan_no_overflow [OF vals lo hi mn_at mx_at small'])
  moreover have "\<exists>b'. scan_to_bmp s f b = Inr b' \<and>
               (\<forall>x < scan_w s. \<forall>y < scan_h s.
                  uint (pix_r (pix b' ! (y * scan_w s + x))) =
                    (uint (field s f y x) - mn) * 255 div (mx - mn) \<and>
                  pix_g (pix b' ! (y * scan_w s + x)) = pix_r (pix b' ! (y * scan_w s + x)) \<and>
                  pix_b (pix b' ! (y * scan_w s + x)) = pix_r (pix b' ! (y * scan_w s + x)))"
    if "mn < mx" "bmp_w b = int (scan_w s)" "scan_w s * scan_h s \<le> length (pix b)"
    by (rule uint_scan_pixels [OF vals lo hi mn_at mx_at small' that])
  moreover have "uint (pix_r (pix c' ! nat (int y * bmp_w c + int x))) =
      (uint (field s f y x) - mn) * 255 div (mx - mn)"
    if lt: "mn < mx" and xy: "x < scan_w s" "y < scan_h s"
      and w: "shade_pixel (field s f) mn mx x y c = Inr c'" for x y c c'
  proof -
    have eq: "to_int32 (field s f y x) = uint (field s f y x)"
      using vals xy by (simp add: to_int32_uint)
    have "mn \<le> to_int32 (field s f y x)" "to_int32 (field s f y x) \<le> mx"
      using lo hi xy eq by simp_all
    from shade_pixel_store [OF this lt small' w] show ?thesis
      by (simp add: eq)
  qed
  ultimately show ?thesis by blast
qed

lemma all_less_2: "(\<forall>x<2. P x) \<longleftrightarrow> P (0::nat) \<and> P 1"
  by (auto simp: less_2_cases_iff)

lemma ex_less_2: "(\<exists>x<2. P x) \<longleftrightarrow> P (0::nat) \<or> P 1"
  by (auto simp: less_2_cases_iff)

theorem int32_normalization_exact_witness:
  "\<exists>b'. scan_to_bmp \<lparr>scan_w = 2, scan_h = 2, field = (\<lambda>f y x. [[0, 250], [500, 1000]] ! y ! x)\<rparr>
            RANGE (tigrBitmap 2 2) = Inr b' \<and>
        uint (pix_r (pix b' ! 0)) = 0 \<and> uint (pix_r (pix b' ! 1)) = 63 \<and>
        uint (pix_r (pix b' ! 2)) = 127 \<and> uint (pix_r (pix b' ! 3)) = 255"
proof -
  let ?s = "\<lparr>scan_w = 2, scan_h = 2, field = (\<lambda>f y x. [[0, 250], [500, 1000]] ! y ! x)\<rparr>"
  have 1: "\<forall>x < scan_w ?s. \<forall>y < scan_h ?s. uint (field ?s RANGE y x) < 2 ^ 31"
    by (simp add: all_less_2)
  have 2: "\<forall>x < scan_w ?s. \<forall>y < scan_h ?s. 0 \<le> uint (field ?s RANGE y x)"
    by (simp add: all_less_2)
  have 3: "\<forall>x < scan_w ?s. \<forall>y < scan_h ?s. uint (field ?s RANGE y x) \<le> 1000"
    by (simp add: all_less_2)
  have 4: "\<exists>x < scan_w ?s. \<exists>y < scan_h ?s. uint (field ?s RANGE y x) = 0"
    by (simp add: ex_less_2)
  have 5: "\<exists>x < scan_w ?s. \<exists>y < scan_h ?s. uint (field ?s RANGE y x) = 1000"
    by (simp add: ex_less_2)
  have 6: "(1000::int) - 0 \<le> (2 ^ 31 - 1) div 255"
    by simp
  have 7: "(0::int) < 1000 \<and> bmp_w (tigrBitmap 2 2) = int (scan_w ?s) \<and>
      scan_w ?s * scan_h ?s \<le> length (pix (tigrBitmap 2 2))"
    by (simp add: tigrBitmap_def)
  from int32_normalization_exact [OF 1 2 3 4 5 6, of "tigrBitmap 2 2"] 7
  have "\<exists>b'. scan_to_bmp ?s RANGE (tigrBitmap 2 2) = Inr b' \<and>
               (\<forall>x < scan_w ?s. \<forall>y < scan_h ?s.
                  uint (pix_r (pix b' ! (y * scan_w ?s + x))) =
                    (uint (field ?s RANGE y x) - 0) * 255 div (1000 - 0) \<and>
                  pix_g (pix b' ! (y * scan_w ?s + x)) = pix_r (pix b' ! (y * scan_w ?s + x)) \<and>
                  pix_b (pix b' ! (y * scan_w ?s + x)) = pix_r (pix b' ! (y * scan_w ?s + x)))"
    by blast
  then have "\<exists>b'. scan_to_bmp ?s RANGE (tigrBitmap 2 2) = Inr b' \<and>
        uint (pix_r (pix b' ! 0)) = 0 \<and> uint (pix_r (pix b' ! Suc 0)) = 63 \<and>
        uint (pix_r (pix b' ! Suc (Suc 0))) = 127 \<and>
        uint (pix_r (pix b' ! Suc (Suc (Suc 0)))) = 255"
    by (clarsimp simp: tigrBitmap_def all_less_2)
  then show ?thesis
    by (simp add: numeral_2_eq_2 numeral_3_eq_3)
qed




text \<open>
  With wrap-around, the maximum of the scan \<open>[0, 10000000]\<close> would get the intensity 82:
  the product \<open>10000000 * 255\<close> wraps to \<open>-1744967296\<close> and the quotient is \<open>-174\<close>.
\<close>

lemma wrapped_intensity_example:
  "wrap_int32 ((10000000 - 0) * 255) = - 1744967296 \<and>
   to_uint8 (wrap_int32 ((10000000 - 0) * 255) sdiv (10000000 - 0)) = 82"
  by (simp add: wrap_int32_def to_uint8_def signed_divide_int_def)


text \<open>What one run of the second pass leaves in the bitmap, whatever its shape.\<close>

lemma scan_to_bmp_written:
  assumes "scan_to_bmp s f b = Inr b'"
  shows "bmp_w b' = bmp_w b \<and> bmp_h b' = bmp_h b \<and> length (pix b') = length (pix b) \<and>
         (\<forall>i < length (pix b). pix b' ! i = pix b ! i \<or> pix_a (pix b' ! i) = 255) \<and>
         (\<forall>x < scan_w s. \<forall>y < scan_h s.
            0 \<le> int y * bmp_w b + int x \<and> nat (int y * bmp_w b + int x) < length (pix b) \<and>
            pix_a (pix b' ! nat (int y * bmp_w b + int x)) = 255)"
proof -
  obtain mn mx where mm: "scan_minmax s f = (mn, mx)" by (cases "scan_minmax s f")
  let ?ps = "List.product [0..<scan_w s] [0..<scan_h s]"
  let ?body = "\<lambda>p. shade_pixel (field s f) mn mx (fst p) (snd p)"
  let ?I = "\<lambda>c. bmp_w c = bmp_w b \<and> bmp_h c = bmp_h b \<and> length (pix c) = length (pix b) \<and>
                (\<forall>i < length (pix b). pix c ! i = pix b ! i \<or> pix_a (pix c ! i) = 255)"
  let ?idx = "\<lambda>p. int (snd p) * bmp_w b + int (fst p)"
  let ?Q = "\<lambda>p c. 0 \<le> ?idx p \<and> nat (?idx p) < length (pix b) \<and> pix_a (pix c ! nat (?idx p)) = 255"
  from assms have r: "for_each ?ps ?body b = Inr b'"
    by (simp add: scan_to_bmp_flat mm)
  have step: "?I c' \<and> ?Q p c'" if "p \<in> set ?ps" and c: "?I c" and b: "?body p c = Inr c'" for p c c'
  proof -
    from shade_pixel_writes [OF b] c obtain q where
      i: "0 \<le> ?idx p" "nat (?idx p) < length (pix b)" and q: "pix_a q = 255"
      and c': "c' = c\<lparr>pix := (pix c)[nat (?idx p) := q]\<rparr>"
      by auto
    show ?thesis
      using c i q by (auto simp: c' nth_list_update)
  qed
  have keep: "?Q p c'"
    if "p \<in> set ?ps" "q \<in> set ?ps" and c: "?I c" and Q: "?Q p c" and b: "?body q c = Inr c'"
    for p q c c'
  proof -
    from shade_pixel_writes [OF b] c obtain t where
      i: "0 \<le> ?idx q" "nat (?idx q) < length (pix b)" and t: "pix_a t = 255"
      and c': "c' = c\<lparr>pix := (pix c)[nat (?idx q) := t]\<rparr>"
      by auto
    show ?thesis
      using c Q i t by (auto simp: c' nth_list_update)
  qed
  have "?I b' \<and> (\<forall>p\<in>set ?ps. ?Q p b')"
    by (rule for_each_Inr_post [where I = ?I and Q = ?Q, OF r _ step keep]) simp_all
  then have I: "?I b'" and Q: "\<And>p. p \<in> set ?ps \<Longrightarrow> ?Q p b'"
    by blast+
  have "?Q (x, y) b'" if "x < scan_w s" "y < scan_h s" for x y
    by (rule Q) (use that in simp)
  then have "\<forall>x < scan_w s. \<forall>y < scan_h s.
            0 \<le> int y * bmp_w b + int x \<and> nat (int y * bmp_w b + int x) < length (pix b) \<and>
            pix_a (pix b' ! nat (int y * bmp_w b + int x)) = 255"
    by simp
  with I show ?thesis by blast
qed

lemma print_range_outside:
  "\<not> (0 \<le> x \<and> x < int (scan_w s) \<and> 0 \<le> y \<and> y < int (scan_h s))
     \<Longrightarrow> print_range s f b x y out = Inr (b, out)"
  by (auto simp: print_range_def)

lemma print_range_inside:
  assumes "0 \<le> x" "x < int (scan_w s)" "0 \<le> y" "y < int (scan_h s)"
    and "0 \<le> y * bmp_w b + x" "nat (y * bmp_w b + x) < length (pix b)"
  shows "print_range s f b x y out =
     Inr (b\<lparr>pix := (pix b)[nat (y * bmp_w b + x) :=
              (pix b ! nat (y * bmp_w b + x))\<lparr>pix_r := 0xFF, pix_g := 0, pix_b := 0, pix_a := 255\<rparr>]\<rparr>,
          out @ show_int x @ '' '' @ show_int y @ '' : '' @
            show_int (to_int32 (field s f (nat y) (nat x))) @ endl)"
  using assms by (simp add: print_range_def write_pix_def Let_def)

lemma print_range_written:
  assumes "print_range s f b x y out = Inr (b', out')"
  shows "bmp_w b' = bmp_w b \<and> bmp_h b' = bmp_h b \<and> length (pix b') = length (pix b) \<and>
         (\<forall>i < length (pix b). pix b' ! i = pix b ! i \<or> pix_a (pix b' ! i) = 255) \<and>
         (0 \<le> x \<and> x < int (scan_w s) \<and> 0 \<le> y \<and> y < int (scan_h s) \<longrightarrow>
            0 \<le> y * bmp_w b + x \<and> nat (y * bmp_w b + x) < length (pix b) \<and>
            pix_a (pix b' ! nat (y * bmp_w b + x)) = 255)"
proof (cases "0 \<le> x \<and> x < int (scan_w s) \<and> 0 \<le> y \<and> y < int (scan_h s)")
  case False
  with assms print_range_outside [OF False, of f b out] show ?thesis by auto
next
  case True
  with assms have
    "write_pix b (y * bmp_w b + x) (\<lambda>p. p\<lparr>pix_r := 0xFF, pix_g := 0, pix_b := 0, pix_a := 255\<rparr>)
       = Inr b'"
    by (auto simp: print_range_def and_then_eq_Inr Let_def)
  then have i: "0 \<le> y * bmp_w b + x" "nat (y * bmp_w b + x) < length (pix b)"
    and b': "b' = b\<lparr>pix := (pix b)[nat (y * bmp_w b + x) :=
              (pix b ! nat (y * bmp_w b + x))\<lparr>pix_r := 0xFF, pix_g := 0, pix_b := 0, pix_a := 255\<rparr>]\<rparr>"
    by (auto simp: write_pix_def split: if_splits)
  show ?thesis
    using i by (auto simp: b' nth_list_update)
qed


lemma frame_write_Running:
  assumes "frame_write st = Running st'"
  obtains b1 b2 out2 where
    "scan_to_bmp (scan st) RANGE (app_bmp st) = Inr b1"
    "(if mouse_btn (app_mouse st) \<noteq> 0
      then print_range (scan st) RANGE b1 (mouse_x (app_mouse st)) (mouse_y (app_mouse st)) (cout st)
      else Inr (b1, cout st)) = Inr (b2, out2)"
    "st' = st\<lparr>app_bmp := b2, cout := out2,
              calls := calls st @ [Mutex_lock, Mutex_unlock, Cartesian]\<rparr>"
  using assms
  by (auto simp: frame_write_def Let_def split: sum.splits prod.splits if_splits)

lemma frame_write_written:
  assumes "frame_write st = Running st'"
  shows "length (pix (app_bmp st')) = length (pix (app_bmp st)) \<and>
         (\<forall>i < length (pix (app_bmp st)).
            pix (app_bmp st') ! i = pix (app_bmp st) ! i \<or> pix_a (pix (app_bmp st') ! i) = 255) \<and>
         (\<forall>x < scan_w (scan st). \<forall>y < scan_h (scan st).
            pix_a (pix (app_bmp st') ! nat (int y * bmp_w (app_bmp st) + int x)) = 255)"
proof -
  from assms obtain b1 b2 out2 where
    1: "scan_to_bmp (scan st) RANGE (app_bmp st) = Inr b1"
    and 2: "(if mouse_btn (app_mouse st) \<noteq> 0
      then print_range (scan st) RANGE b1 (mouse_x (app_mouse st)) (mouse_y (app_mouse st)) (cout st)
      else Inr (b1, cout st)) = Inr (b2, out2)"
    and 3: "app_bmp st' = b2"
    by (elim frame_write_Running) simp
  note A = scan_to_bmp_written [OF 1]
  have B: "length (pix b2) = length (pix b1) \<and>
           (\<forall>i < length (pix b1). pix b2 ! i = pix b1 ! i \<or> pix_a (pix b2 ! i) = 255)"
  proof (cases "mouse_btn (app_mouse st) \<noteq> 0")
    case True
    with 2 have "print_range (scan st) RANGE b1 (mouse_x (app_mouse st)) (mouse_y (app_mouse st))
        (cout st) = Inr (b2, out2)"
      by simp
    from print_range_written [OF this] show ?thesis by simp
  next
    case False
    with 2 show ?thesis by simp
  qed
  have len: "length (pix b2) = length (pix (app_bmp st))"
    using A B by simp
  have same: "pix b2 ! i = pix (app_bmp st) ! i \<or> pix_a (pix b2 ! i) = 255"
    if "i < length (pix (app_bmp st))" for i
    using A B that by metis
  have op: "pix_a (pix b2 ! nat (int y * bmp_w (app_bmp st) + int x)) = 255"
    if "x < scan_w (scan st)" "y < scan_h (scan st)" for x y
  proof -
    let ?i = "nat (int y * bmp_w (app_bmp st) + int x)"
    from A that have i: "?i < length (pix b1)" and a: "pix_a (pix b1 ! ?i) = 255"
      by simp_all
    from B i have "pix b2 ! ?i = pix b1 ! ?i \<or> pix_a (pix b2 ! ?i) = 255" by simp
    with a show ?thesis by auto
  qed
  from len same op show ?thesis
    unfolding 3 by blast
qed

text \<open>
  Claim C9. Both writers set the alpha component to 255. One pixel write of
  \<^verbatim>\<open>scan_to_bmp\<close> leaves alpha 255 in the pixel it addresses and every other pixel as
  it was. After \<^verbatim>\<open>scan_to_bmp\<close>, after
  \<^verbatim>\<open>print_range\<close> and after a whole frame write, the bitmap has kept its size, every
  pixel of it is either the pixel that was there before or has alpha 255, and every
  pixel that the loops of \<^verbatim>\<open>scan_to_bmp\<close> address (index \<open>y * bmp->w + x\<close> for a column
  \<open>x\<close> and a row \<open>y\<close> of the scan), as well as the pixel under a cursor inside the scan,
  has alpha 255.
\<close>

theorem written_pixels_opaque:
  "(shade_pixel img mn mx px py c = Inr c' \<longrightarrow>
      length (pix c') = length (pix c) \<and>
      pix_a (pix c' ! nat (int py * bmp_w c + int px)) = 255 \<and>
      (\<forall>i < length (pix c). i \<noteq> nat (int py * bmp_w c + int px) \<longrightarrow>
         pix c' ! i = pix c ! i)) \<and>
   (scan_to_bmp s f b = Inr b' \<longrightarrow>
      length (pix b') = length (pix b) \<and>
      (\<forall>i < length (pix b). pix b' ! i = pix b ! i \<or> pix_a (pix b' ! i) = 255) \<and>
      (\<forall>x < scan_w s. \<forall>y < scan_h s. pix_a (pix b' ! nat (int y * bmp_w b + int x)) = 255)) \<and>
   (print_range s f b cx cy out = Inr (b'', out') \<longrightarrow>
      length (pix b'') = length (pix b) \<and>
      (\<forall>i < length (pix b). pix b'' ! i = pix b ! i \<or> pix_a (pix b'' ! i) = 255) \<and>
      (0 \<le> cx \<and> cx < int (scan_w s) \<and> 0 \<le> cy \<and> cy < int (scan_h s) \<longrightarrow>
         pix_a (pix b'' ! nat (cy * bmp_w b + cx)) = 255)) \<and>
   (frame_write st = Running st' \<longrightarrow>
      length (pix (app_bmp st')) = length (pix (app_bmp st)) \<and>
      (\<forall>i < length (pix (app_bmp st)).
         pix (app_bmp st') ! i = pix (app_bmp st) ! i \<or> pix_a (pix (app_bmp st') ! i) = 255) \<and>
      (\<forall>x < scan_w (scan st). \<forall>y < scan_h (scan st).
         pix_a (pix (app_bmp st') ! nat (int y * bmp_w (app_bmp st) + int x)) = 255))"
proof (intro conjI impI)
  assume a: "shade_pixel img mn mx px py c = Inr c'"
  from shade_pixel_one_pixel [OF a]
  show "length (pix c') = length (pix c)"
    and "pix_a (pix c' ! nat (int py * bmp_w c + int px)) = 255"
    and "\<forall>i < length (pix c). i \<noteq> nat (int py * bmp_w c + int px) \<longrightarrow>
         pix c' ! i = pix c ! i"
    by simp_all
next
  assume a: "scan_to_bmp s f b = Inr b'"
  from scan_to_bmp_written [OF a]
  show "length (pix b') = length (pix b)"
    and "\<forall>i < length (pix b). pix b' ! i = pix b ! i \<or> pix_a (pix b' ! i) = 255"
    and "\<forall>x < scan_w s. \<forall>y < scan_h s. pix_a (pix b' ! nat (int y * bmp_w b + int x)) = 255"
    by simp_all
next
  assume a: "print_range s f b cx cy out = Inr (b'', out')"
  from print_range_written [OF a]
  show "length (pix b'') = length (pix b)"
    and "\<forall>i < length (pix b). pix b'' ! i = pix b ! i \<or> pix_a (pix b'' ! i) = 255"
    by simp_all
  assume "0 \<le> cx \<and> cx < int (scan_w s) \<and> 0 \<le> cy \<and> cy < int (scan_h s)"
  with print_range_written [OF a]
  show "pix_a (pix b'' ! nat (cy * bmp_w b + cx)) = 255"
    by simp
next
  assume a: "frame_write st = Running st'"
  from frame_write_written [OF a]
  show "length (pix (app_bmp st')) = length (pix (app_bmp st))"
    and "\<forall>i < length (pix (app_bmp st)).
         pix (app_bmp st') ! i = pix (app_bmp st) ! i \<or> pix_a (pix (app_bmp st') ! i) = 255"
    and "\<forall>x < scan_w (scan st). \<forall>y < scan_h (scan st).
         pix_a (pix (app_bmp st') ! nat (int y * bmp_w (app_bmp st) + int x)) = 255"
    by simp_all
qed

lemma TPixel_all_updates:
  "p\<lparr>pix_r := r, pix_g := g, pix_b := b, pix_a := a\<rparr> = \<lparr>pix_r = r, pix_g = g, pix_b = b, pix_a = a\<rparr>"
  by (cases p) simp

text \<open>
  Claim C4, as amended. In a frame write whose \<^verbatim>\<open>scan_to_bmp\<close> has returned the bitmap
  \<open>shaded\<close>, with
  the button down and the cursor inside the scan, the pixel \<open>y * bmp->w + x\<close> of the
  bitmap is set to \<open>(0xFF, 0, 0, 255)\<close>, the other pixels are those of \<open>shaded\<close>, and the
  line \<^verbatim>\<open>"x y : value"\<close> is appended to standard output, where \<open>value\<close> is the channel
  value at row \<open>y\<close>, column \<open>x\<close> as the \<^verbatim>\<open>int32_t\<close> it is read into: the value itself
  below \<open>2^31\<close>, the value less \<open>2^32\<close> from there on. With the cursor outside the scan,
  \<^verbatim>\<open>print_range\<close> returns the bitmap and the output as they were.
\<close>

theorem probe_overlay:
  "(mouse_btn (app_mouse st) \<noteq> 0 \<and>
    0 \<le> mouse_x (app_mouse st) \<and> mouse_x (app_mouse st) < int (scan_w (scan st)) \<and>
    0 \<le> mouse_y (app_mouse st) \<and> mouse_y (app_mouse st) < int (scan_h (scan st)) \<and>
    scan_to_bmp (scan st) RANGE (app_bmp st) = Inr shaded \<longrightarrow>
      (\<exists>st'. frame_write st = Running st' \<and>
         nat (mouse_y (app_mouse st) * bmp_w (app_bmp st) + mouse_x (app_mouse st))
           < length (pix shaded) \<and>
         pix (app_bmp st') =
           (pix shaded)[nat (mouse_y (app_mouse st) * bmp_w (app_bmp st) + mouse_x (app_mouse st)) :=
              \<lparr>pix_r = 0xFF, pix_g = 0, pix_b = 0, pix_a = 255\<rparr>] \<and>
         cout st' = cout st @ show_int (mouse_x (app_mouse st)) @ '' '' @
           show_int (mouse_y (app_mouse st)) @ '' : '' @
           show_int
             (if uint (field (scan st) RANGE (nat (mouse_y (app_mouse st)))
                    (nat (mouse_x (app_mouse st)))) < 2 ^ 31
              then uint (field (scan st) RANGE (nat (mouse_y (app_mouse st)))
                     (nat (mouse_x (app_mouse st))))
              else uint (field (scan st) RANGE (nat (mouse_y (app_mouse st)))
                     (nat (mouse_x (app_mouse st)))) - 2 ^ 32) @ endl)) \<and>
   (\<not> (0 \<le> cx \<and> cx < int (scan_w s) \<and> 0 \<le> cy \<and> cy < int (scan_h s)) \<longrightarrow>
      print_range s f b cx cy out = Inr (b, out))"
proof (intro conjI impI)
  let ?x = "mouse_x (app_mouse st)" and ?y = "mouse_y (app_mouse st)"
  let ?v = "field (scan st) RANGE (nat ?y) (nat ?x)"
  assume a: "mouse_btn (app_mouse st) \<noteq> 0 \<and>
    0 \<le> ?x \<and> ?x < int (scan_w (scan st)) \<and> 0 \<le> ?y \<and> ?y < int (scan_h (scan st)) \<and>
    scan_to_bmp (scan st) RANGE (app_bmp st) = Inr shaded"
  then have r: "scan_to_bmp (scan st) RANGE (app_bmp st) = Inr shaded" by simp
  note W = scan_to_bmp_written [OF r]
  from a have in_scan: "0 \<le> ?x" "?x < int (scan_w (scan st))" "0 \<le> ?y" "?y < int (scan_h (scan st))"
    by simp_all
  then have "nat ?x < scan_w (scan st)" "nat ?y < scan_h (scan st)"
    by (simp_all add: nat_less_iff)
  with W have "0 \<le> int (nat ?y) * bmp_w (app_bmp st) + int (nat ?x) \<and>
      nat (int (nat ?y) * bmp_w (app_bmp st) + int (nat ?x)) < length (pix (app_bmp st))"
    by blast
  with in_scan W have i: "0 \<le> ?y * bmp_w shaded + ?x" "nat (?y * bmp_w shaded + ?x) < length (pix shaded)"
    by simp_all
  have w: "bmp_w shaded = bmp_w (app_bmp st)" using W by simp
  note P = print_range_inside [OF in_scan i, of RANGE "cout st"]
  have v: "to_int32 ?v = (if uint ?v < 2 ^ 31 then uint ?v else uint ?v - 2 ^ 32)"
    by (rule to_int32_cases)
  have "\<exists>st'. frame_write st = Running st' \<and>
         nat (?y * bmp_w (app_bmp st) + ?x) < length (pix shaded) \<and>
         pix (app_bmp st') =
           (pix shaded)[nat (?y * bmp_w (app_bmp st) + ?x) :=
              \<lparr>pix_r = 0xFF, pix_g = 0, pix_b = 0, pix_a = 255\<rparr>] \<and>
         cout st' = cout st @ show_int ?x @ '' '' @ show_int ?y @ '' : '' @
           show_int (to_int32 ?v) @ endl"
    using a i by (simp add: frame_write_def Let_def r P TPixel_all_updates w)
  then show "\<exists>st'. frame_write st = Running st' \<and>
         nat (?y * bmp_w (app_bmp st) + ?x) < length (pix shaded) \<and>
         pix (app_bmp st') =
           (pix shaded)[nat (?y * bmp_w (app_bmp st) + ?x) :=
              \<lparr>pix_r = 0xFF, pix_g = 0, pix_b = 0, pix_a = 255\<rparr>] \<and>
         cout st' = cout st @ show_int ?x @ '' '' @ show_int ?y @ '' : '' @
           show_int (if uint ?v < 2 ^ 31 then uint ?v else uint ?v - 2 ^ 32) @ endl"
    unfolding v .
next
  assume "\<not> (0 \<le> cx \<and> cx < int (scan_w s) \<and> 0 \<le> cy \<and> cy < int (scan_h s))"
  then show "print_range s f b cx cy out = Inr (b, out)"
    by (rule print_range_outside)
qed

lemma example_scan_to_bmp:
  "scan_to_bmp example_scan RANGE (tigrBitmap 2 2) = Inr example_shaded"
  by code_simp

lemma example_print_range:
  "print_range example_scan RANGE example_shaded 1 1 [] =
     Inr (example_probed, ''1 1 : 400'' @ endl)"
  by code_simp

lemma example_frame_write:
  "frame_write example_state =
     Running (example_state\<lparr>app_bmp := example_probed, cout := ''1 1 : 400'' @ endl,
                calls := [Mutex_lock, Mutex_unlock, Cartesian]\<rparr>)"
  by (simp add: frame_write_def example_state_def app_start_def example_scan_to_bmp
      example_print_range Let_def)

lemma example_high_scan_to_bmp:
  "scan_to_bmp example_high_scan RANGE (tigrBitmap 2 2) = Inr example_high_shaded"
  by code_simp

lemma example_high_print_range:
  "print_range example_high_scan RANGE example_high_shaded 1 1 [] =
     Inr (example_high_probed, ''1 1 : -1'' @ endl)"
  by code_simp

lemma example_high_frame_write:
  "frame_write (example_state\<lparr>scan := example_high_scan\<rparr>) =
     Running (example_state\<lparr>scan := example_high_scan, app_bmp := example_high_probed,
                cout := ''1 1 : -1'' @ endl, calls := [Mutex_lock, Mutex_unlock, Cartesian]\<rparr>)"
  by (simp add: frame_write_def example_state_def app_start_def example_high_scan_to_bmp
      example_high_print_range Let_def)

lemma example_shade_pixel:
  "\<exists>c'. shade_pixel (field example_scan RANGE) 5 1005 1 1 (tigrBitmap 2 2) = Inr c'"
  by (simp add: shade_pixel_def int32_of_def int32_div_def to_int32_def write_pix_def
      INT32_MAX_def INT32_MIN_def signed_divide_int_def tigrBitmap_def example_scan_def)

theorem written_pixels_opaque_witness:
  "(\<exists>c'. shade_pixel (field example_scan RANGE) 5 1005 1 1 (tigrBitmap 2 2) = Inr c' \<and>
      pix_a (pix c' ! nat (int 1 * bmp_w (tigrBitmap 2 2) + int 1)) = 255) \<and>
   scan_to_bmp example_scan RANGE (tigrBitmap 2 2) = Inr example_shaded \<and>
   pix_a (pix example_shaded ! nat (int 1 * bmp_w (tigrBitmap 2 2) + int 1)) = 255 \<and>
   print_range example_scan RANGE example_shaded 1 1 [] =
     Inr (example_probed, ''1 1 : 400'' @ endl) \<and>
   pix_a (pix example_probed ! nat (1 * bmp_w example_shaded + 1)) = 255 \<and>
   frame_write example_state =
     Running (example_state\<lparr>app_bmp := example_probed, cout := ''1 1 : 400'' @ endl,
                calls := [Mutex_lock, Mutex_unlock, Cartesian]\<rparr>) \<and>
   pix_a (pix example_probed ! nat (int 1 * bmp_w (app_bmp example_state) + int 0)) = 255"
proof -
  let ?st' = "example_state\<lparr>app_bmp := example_probed, cout := ''1 1 : 400'' @ endl,
                calls := [Mutex_lock, Mutex_unlock, Cartesian]\<rparr>"
  note a = example_scan_to_bmp and b = example_print_range and c = example_frame_write
  have in_scan: "0 \<le> (1::int) \<and> 1 < int (scan_w example_scan) \<and> 0 \<le> (1::int) \<and>
      1 < int (scan_h example_scan)"
    by (simp add: example_scan_def)
  have xy: "0 < scan_w example_scan" "1 < scan_w example_scan" "1 < scan_h example_scan"
    "1 < scan_h (scan example_state)" "0 < scan_w (scan example_state)"
    by (simp_all add: example_scan_def example_state_def)
  have ap: "app_bmp ?st' = example_probed"
    by simp
  from written_pixels_opaque
    [where s = example_scan and f = RANGE and b = "tigrBitmap 2 2" and b' = example_shaded
       and st = example_state and st' = ?st']
    a c
  have 1: "\<forall>x < scan_w example_scan. \<forall>y < scan_h example_scan.
      pix_a (pix example_shaded ! nat (int y * bmp_w (tigrBitmap 2 2) + int x)) = 255"
    and 3: "\<forall>x < scan_w (scan example_state). \<forall>y < scan_h (scan example_state).
      pix_a (pix example_probed ! nat (int y * bmp_w (app_bmp example_state) + int x)) = 255"
    unfolding ap by blast+
  from written_pixels_opaque
    [where s = example_scan and f = RANGE and b = example_shaded and cx = 1 and cy = 1
       and out = "[]" and b'' = example_probed and out' = "''1 1 : 400'' @ endl"]
    b in_scan
  have 2: "pix_a (pix example_probed ! nat (1 * bmp_w example_shaded + 1)) = 255"
    by blast
  from 1 xy have 1: "pix_a (pix example_shaded ! nat (int 1 * bmp_w (tigrBitmap 2 2) + int 1)) = 255"
    by blast
  from 3 xy have 3: "pix_a (pix example_probed !
      nat (int 1 * bmp_w (app_bmp example_state) + int 0)) = 255"
    by blast
  from example_shade_pixel obtain c1 where
    w: "shade_pixel (field example_scan RANGE) 5 1005 1 1 (tigrBitmap 2 2) = Inr c1" ..
  from written_pixels_opaque
    [where img = "field example_scan RANGE" and mn = 5 and mx = 1005 and px = 1 and py = 1
       and c = "tigrBitmap 2 2" and c' = c1] w
  have 0: "pix_a (pix c1 ! nat (int 1 * bmp_w (tigrBitmap 2 2) + int 1)) = 255"
    by blast
  from w 0 a b c 1 2 3 show ?thesis by blast
qed

theorem probe_overlay_witness:
  "mouse_btn (app_mouse example_state) \<noteq> 0 \<and>
   scan_to_bmp (scan example_state) RANGE (app_bmp example_state) = Inr example_shaded \<and>
   (\<exists>st'. frame_write example_state = Running st' \<and>
      pix (app_bmp st') =
        (pix example_shaded)[nat (mouse_y (app_mouse example_state) * bmp_w (app_bmp example_state)
             + mouse_x (app_mouse example_state)) :=
           \<lparr>pix_r = 0xFF, pix_g = 0, pix_b = 0, pix_a = 255\<rparr>] \<and>
      cout st' = cout example_state @ show_int (mouse_x (app_mouse example_state)) @ '' '' @
           show_int (mouse_y (app_mouse example_state)) @ '' : '' @ show_int 400 @ endl) \<and>
   scan_to_bmp (scan (example_state\<lparr>scan := example_high_scan\<rparr>)) RANGE
       (app_bmp (example_state\<lparr>scan := example_high_scan\<rparr>)) = Inr example_high_shaded \<and>
   (\<exists>st'. frame_write (example_state\<lparr>scan := example_high_scan\<rparr>) = Running st' \<and>
      pix (app_bmp st') =
        (pix example_high_shaded)
          [nat (mouse_y (app_mouse (example_state\<lparr>scan := example_high_scan\<rparr>)) *
                bmp_w (app_bmp (example_state\<lparr>scan := example_high_scan\<rparr>)) +
                mouse_x (app_mouse (example_state\<lparr>scan := example_high_scan\<rparr>))) :=
           \<lparr>pix_r = 0xFF, pix_g = 0, pix_b = 0, pix_a = 255\<rparr>] \<and>
      cout st' = cout (example_state\<lparr>scan := example_high_scan\<rparr>) @
           show_int (mouse_x (app_mouse (example_state\<lparr>scan := example_high_scan\<rparr>))) @ '' '' @
           show_int (mouse_y (app_mouse (example_state\<lparr>scan := example_high_scan\<rparr>))) @ '' : '' @
           show_int (- 1) @ endl) \<and>
   print_range example_scan RANGE example_shaded 2 1 [] = Inr (example_shaded, [])"
proof -
  let ?x = "mouse_x (app_mouse example_state)" and ?y = "mouse_y (app_mouse example_state)"
  let ?hi = "example_state\<lparr>scan := example_high_scan\<rparr>"
  let ?v = "field (scan example_state) RANGE (nat ?y) (nat ?x)"
  let ?hv = "field (scan ?hi) RANGE (nat (mouse_y (app_mouse ?hi))) (nat (mouse_x (app_mouse ?hi)))"
  have btn: "mouse_btn (app_mouse example_state) \<noteq> 0"
    by (simp add: example_state_def)
  have cur: "0 \<le> ?x \<and> ?x < int (scan_w (scan example_state)) \<and>
             0 \<le> ?y \<and> ?y < int (scan_h (scan example_state))"
    by (simp add: example_state_def example_scan_def)
  have r: "scan_to_bmp (scan example_state) RANGE (app_bmp example_state) = Inr example_shaded"
    using example_scan_to_bmp by (simp add: example_state_def)
  have v: "(if uint ?v < 2 ^ 31 then uint ?v else uint ?v - 2 ^ 32) = 400"
    by (simp add: example_state_def example_scan_def)
  have out: "\<not> (0 \<le> (2::int) \<and> 2 < int (scan_w example_scan) \<and> 0 \<le> (1::int) \<and>
      1 < int (scan_h example_scan))"
    by (simp add: example_scan_def)
  have hbtn: "mouse_btn (app_mouse ?hi) \<noteq> 0"
    by (simp add: example_state_def)
  have hcur: "0 \<le> mouse_x (app_mouse ?hi) \<and> mouse_x (app_mouse ?hi) < int (scan_w (scan ?hi)) \<and>
             0 \<le> mouse_y (app_mouse ?hi) \<and> mouse_y (app_mouse ?hi) < int (scan_h (scan ?hi))"
    by (simp add: example_state_def example_high_scan_def)
  have hr: "scan_to_bmp (scan ?hi) RANGE (app_bmp ?hi) = Inr example_high_shaded"
    using example_high_scan_to_bmp by (simp add: example_state_def)
  have hv: "(if uint ?hv < 2 ^ 31 then uint ?hv else uint ?hv - 2 ^ 32) = - 1"
    by (simp add: example_state_def example_high_scan_def)
  from probe_overlay
    [where st = example_state and shaded = example_shaded and cx = 2 and cy = 1
       and s = example_scan and f = RANGE and b = example_shaded and out = "[]"]
    btn cur r out
  have 1: "\<exists>st'. frame_write example_state = Running st' \<and>
      pix (app_bmp st') =
        (pix example_shaded)[nat (?y * bmp_w (app_bmp example_state) + ?x) :=
           \<lparr>pix_r = 0xFF, pix_g = 0, pix_b = 0, pix_a = 255\<rparr>] \<and>
      cout st' = cout example_state @ show_int ?x @ '' '' @
           show_int ?y @ '' : '' @ show_int 400 @ endl"
    and 2: "print_range example_scan RANGE example_shaded 2 1 [] = Inr (example_shaded, [])"
    unfolding v by blast+
  from probe_overlay [where st = ?hi and shaded = example_high_shaded] hbtn hcur hr
  have 3: "\<exists>st'. frame_write ?hi = Running st' \<and>
      pix (app_bmp st') =
        (pix example_high_shaded)
          [nat (mouse_y (app_mouse ?hi) * bmp_w (app_bmp ?hi) + mouse_x (app_mouse ?hi)) :=
           \<lparr>pix_r = 0xFF, pix_g = 0, pix_b = 0, pix_a = 255\<rparr>] \<and>
      cout st' = cout ?hi @ show_int (mouse_x (app_mouse ?hi)) @ '' '' @
           show_int (mouse_y (app_mouse ?hi)) @ '' : '' @ show_int (- 1) @ endl"
    unfolding hv by blast
  from btn r 1 hr 3 2 show ?thesis by blast
qed

lemma example_blank_scan_to_bmp:
  "scan_to_bmp (new_scan 2 2) RANGE (tigrBitmap 2 2) = Inl Division_by_zero"
  by code_simp

text \<open>
  Claim C4 as stated asks this of every frame write with the button down and the cursor
  inside the scan, and has the raw channel value printed. With the scan whose channel
  values are all zero, \<^verbatim>\<open>scan_to_bmp\<close> divides by zero before \<^verbatim>\<open>print_range\<close> is
  called: the frame write stops right after taking the mutex, with no pixel set and
  nothing printed. With the channel value \<open>2^32 - 1\<close> under the cursor, the frame write
  completes and the line printed is \<^verbatim>\<open>"1 1 : -1"\<close>.
\<close>

theorem probe_overlay_counterexample:
  "mouse_btn (app_mouse (example_state\<lparr>scan := new_scan 2 2\<rparr>)) = 1 \<and>
   mouse_x (app_mouse (example_state\<lparr>scan := new_scan 2 2\<rparr>)) = 1 \<and>
   mouse_y (app_mouse (example_state\<lparr>scan := new_scan 2 2\<rparr>)) = 1 \<and>
   scan_w (scan (example_state\<lparr>scan := new_scan 2 2\<rparr>)) = 2 \<and>
   scan_h (scan (example_state\<lparr>scan := new_scan 2 2\<rparr>)) = 2 \<and>
   frame_write (example_state\<lparr>scan := new_scan 2 2\<rparr>) =
     Crashed Division_by_zero (example_state\<lparr>scan := new_scan 2 2, calls := [Mutex_lock]\<rparr>) \<and>
   mouse_btn (app_mouse (example_state\<lparr>scan := example_high_scan\<rparr>)) = 1 \<and>
   mouse_x (app_mouse (example_state\<lparr>scan := example_high_scan\<rparr>)) = 1 \<and>
   mouse_y (app_mouse (example_state\<lparr>scan := example_high_scan\<rparr>)) = 1 \<and>
   scan_w (scan (example_state\<lparr>scan := example_high_scan\<rparr>)) = 2 \<and>
   scan_h (scan (example_state\<lparr>scan := example_high_scan\<rparr>)) = 2 \<and>
   unat (field (scan (example_state\<lparr>scan := example_high_scan\<rparr>)) RANGE 1 1) = 4294967295 \<and>
   cout (example_state\<lparr>scan := example_high_scan\<rparr>) = [] \<and>
   frame_write (example_state\<lparr>scan := example_high_scan\<rparr>) =
     Running (example_state\<lparr>scan := example_high_scan, app_bmp := example_high_probed,
                cout := ''1 1 : -1'' @ endl, calls := [Mutex_lock, Mutex_unlock, Cartesian]\<rparr>)"
proof -
  have "frame_write (example_state\<lparr>scan := new_scan 2 2\<rparr>) =
     Crashed Division_by_zero (example_state\<lparr>scan := new_scan 2 2, calls := [Mutex_lock]\<rparr>)"
    using example_blank_scan_to_bmp
    by (simp add: frame_write_def example_state_def app_start_def Let_def)
  moreover note example_high_frame_write
  ultimately show ?thesis
    by (simp add: example_state_def app_start_def new_scan_def example_high_scan_def)
qed

section \<open>Properties of the two programs\<close>

lemma lidar_view_usage:
  assumes "length argv \<noteq> 2" "length argv \<noteq> 3"
  shows "lidar_view_main k wld argv =
     Exited (if length argv = 1 then EXIT_SUCCESS else EXIT_FAILURE)
       ((lv_start k)\<lparr>lv_cerr := usage k\<rparr>)"
  using assms by (simp add: lidar_view_main_def Let_def lv_start_def)

text \<open>
  Claim C2. Started with no argument at all (\<open>argv\<close> holds the program name only),
  \<^verbatim>\<open>lidar_view_example\<close> prints its usage text and exits with status 0, and
  \<^verbatim>\<open>view_tigr\<close>, which has no test of \<^verbatim>\<open>argc\<close>, constructs a \<^verbatim>\<open>std::string\<close> from
  the null pointer \<^verbatim>\<open>argv[1]\<close>.
\<close>

theorem no_argument_runs:
  "lidar_view_main k wld [prog] = Exited 0 ((lv_start k)\<lparr>lv_cerr := usage k\<rparr>) \<and>
   view_tigr_main k' wld' [prog'] = Crashed Null_string (app_start k')"
  by (simp add: lidar_view_usage EXIT_SUCCESS_def view_tigr_main_def)


section \<open>Properties of the polling loops\<close>

lemma render_iteration_error:
  "CLIENT_ERROR (ev_state ev) \<Longrightarrow>
   render_iteration k info ev s =
     Exited EXIT_FAILURE
       (s\<lparr>app_mouse := ev_mouse ev, calls := calls s @ [Poll_client],
          cerr := cerr s @ ''Sensor client returned error state!'' @ endl\<rparr>)"
  by (simp add: render_iteration_def FATAL_def Let_def)

lemma render_iteration_failed_read:
  "\<not> CLIENT_ERROR (ev_state ev) \<Longrightarrow> LIDAR_DATA (ev_state ev) \<Longrightarrow> \<not> ev_lidar_ok ev \<Longrightarrow>
   render_iteration k info ev s =
     Exited EXIT_FAILURE
       (s\<lparr>app_mouse := ev_mouse ev, packet_buf := ev_lidar_buf ev,
          calls := calls s @ [Poll_client, Read_lidar_packet False],
          cerr := cerr s @ ''Failed to read a packet of the expected size!'' @ endl\<rparr>)"
  by (simp add: render_iteration_def lidar_branch_def FATAL_def Let_def)

lemma lv_iteration_error:
  "CLIENT_ERROR (ev_state ev) \<Longrightarrow>
   lv_iteration k info ev s =
     Exited EXIT_FAILURE
       (s\<lparr>lv_calls := lv_calls s @ [Poll_client],
          lv_cerr := lv_cerr s @ ''Sensor client returned error state!'' @ endl\<rparr>)"
  by (simp add: lv_iteration_def lv_FATAL_def Let_def)

lemma lv_iteration_failed_read:
  "\<not> CLIENT_ERROR (ev_state ev) \<Longrightarrow> LIDAR_DATA (ev_state ev) \<Longrightarrow> \<not> ev_lidar_ok ev \<Longrightarrow>
   lv_iteration k info ev s =
     Exited EXIT_FAILURE
       (s\<lparr>lv_packet_buf := ev_lidar_buf ev,
          lv_calls := lv_calls s @ [Poll_client, Read_lidar_packet False],
          lv_cerr := lv_cerr s @ ''Failed to read a packet of the expected size!'' @ endl\<rparr>)"
  by (simp add: lv_iteration_def lv_lidar_branch_def lv_FATAL_def Let_def)

lemma view_tigr_connect_failure:
  "1 < length argv \<Longrightarrow> \<not> init_client wld (argv ! 1) [] \<Longrightarrow>
   view_tigr_main k wld argv =
     Exited EXIT_FAILURE
       ((app_start k)\<lparr>cerr := ''Ouster client example '' @ SDK_VERSION k @ endl @
           ''Connecting to '' @ dquote @ argv ! 1 @ dquote @ ''...'' @ endl @
           ''Failed to connect'' @ endl\<rparr>)"
  by (simp add: view_tigr_main_def init_def FATAL_def Let_def app_start_def)

lemma lidar_view_connect_failure:
  "length argv = 2 \<or> length argv = 3 \<Longrightarrow>
   \<not> init_client wld (argv ! 1) (if length argv = 3 then argv ! 2 else []) \<Longrightarrow>
   lidar_view_main k wld argv =
     Exited EXIT_FAILURE
       ((lv_start k)\<lparr>lv_cerr := ''Ouster client example '' @ SDK_VERSION k @ endl @
           ''Connecting to '' @ dquote @ argv ! 1 @ dquote @ ''...'' @ endl @
           ''Failed to connect'' @ endl\<rparr>)"
  by (auto simp: lidar_view_main_def lv_FATAL_def Let_def lv_start_def)

lemma view_tigr_first_poll_error:
  assumes "1 < length argv" "init_client wld (argv ! 1) []"
    and "events wld = ev # evs" "CLIENT_ERROR (ev_state ev)"
  shows "\<exists>s'. view_tigr_main k wld argv = Exited EXIT_FAILURE s' \<and>
           app_bmp s' = tigrBitmap (int (columns_per_frame (metadata wld)))
                          (int (pixels_per_column (metadata wld))) \<and>
           calls s' = [Poll_client] \<and> cout s' = []"
  using assms
  by (simp add: view_tigr_main_def init_def render_thread_def render_iteration_error Let_def
      app_start_def)

text \<open>
  Claim C5, as amended. A failed connection, an error status of the poll and a failed
  read of a lidar packet each end the process with \<open>EXIT_FAILURE\<close>, which is not zero, after one more message on
  the error stream, whatever events would follow: in \<^verbatim>\<open>view_tigr\<close> and in
  \<^verbatim>\<open>lidar_view_example\<close>. When the first poll of \<^verbatim>\<open>view_tigr\<close> reports the error
  status, the process ends with the bitmap as \<^verbatim>\<open>tigrBitmap\<close> has allocated it, the
  poll as its only call and nothing on standard output.
\<close>

theorem errors_are_fatal:
  "EXIT_FAILURE \<noteq> 0 \<and>
   (1 < length argv \<and> \<not> init_client wld (argv ! 1) [] \<longrightarrow>
      view_tigr_main k wld argv =
        Exited EXIT_FAILURE
          ((app_start k)\<lparr>cerr := ''Ouster client example '' @ SDK_VERSION k @ endl @
              ''Connecting to '' @ dquote @ argv ! 1 @ dquote @ ''...'' @ endl @
              ''Failed to connect'' @ endl\<rparr>)) \<and>
   ((length argv = 2 \<or> length argv = 3) \<and>
    \<not> init_client wld (argv ! 1) (if length argv = 3 then argv ! 2 else []) \<longrightarrow>
      lidar_view_main kv wld argv =
        Exited EXIT_FAILURE
          ((lv_start kv)\<lparr>lv_cerr := ''Ouster client example '' @ SDK_VERSION kv @ endl @
              ''Connecting to '' @ dquote @ argv ! 1 @ dquote @ ''...'' @ endl @
              ''Failed to connect'' @ endl\<rparr>)) \<and>
   (CLIENT_ERROR (ev_state ev) \<longrightarrow>
      render_loop k info (ev # evs) s =
        Exited EXIT_FAILURE
          (s\<lparr>app_mouse := ev_mouse ev, calls := calls s @ [Poll_client],
             cerr := cerr s @ ''Sensor client returned error state!'' @ endl\<rparr>) \<and>
      lv_loop kv info (ev # evs) sv =
        Exited EXIT_FAILURE
          (sv\<lparr>lv_calls := lv_calls sv @ [Poll_client],
              lv_cerr := lv_cerr sv @ ''Sensor client returned error state!'' @ endl\<rparr>)) \<and>
   (\<not> CLIENT_ERROR (ev_state ev) \<and> LIDAR_DATA (ev_state ev) \<and> \<not> ev_lidar_ok ev \<longrightarrow>
      render_loop k info (ev # evs) s =
        Exited EXIT_FAILURE
          (s\<lparr>app_mouse := ev_mouse ev, packet_buf := ev_lidar_buf ev,
             calls := calls s @ [Poll_client, Read_lidar_packet False],
             cerr := cerr s @ ''Failed to read a packet of the expected size!'' @ endl\<rparr>) \<and>
      lv_loop kv info (ev # evs) sv =
        Exited EXIT_FAILURE
          (sv\<lparr>lv_packet_buf := ev_lidar_buf ev,
              lv_calls := lv_calls sv @ [Poll_client, Read_lidar_packet False],
              lv_cerr := lv_cerr sv @ ''Failed to read a packet of the expected size!'' @ endl\<rparr>)) \<and>
   (1 < length argv \<and> init_client wld (argv ! 1) [] \<and> events wld = ev # evs \<and>
    CLIENT_ERROR (ev_state ev) \<longrightarrow>
      (\<exists>s'. view_tigr_main k wld argv = Exited EXIT_FAILURE s' \<and>
         app_bmp s' = tigrBitmap (int (columns_per_frame (metadata wld)))
                        (int (pixels_per_column (metadata wld))) \<and>
         calls s' = [Poll_client] \<and> cout s' = []))"
proof (intro conjI impI)
  show "EXIT_FAILURE \<noteq> 0" by (simp add: EXIT_FAILURE_def)
qed (simp_all add: view_tigr_connect_failure lidar_view_connect_failure render_iteration_error
      lv_iteration_error render_iteration_failed_read lv_iteration_failed_read
      view_tigr_first_poll_error)


lemma failed_read_last_not_batched:
  "Read_lidar_packet False \<notin> set (butlast cs) \<Longrightarrow> \<not> batched_after_failed_read cs"
  by (induction cs) (auto split: if_splits)

lemma frame_write_calls:
  "frame_write s = Running s' \<Longrightarrow> calls s' = calls s @ [Mutex_lock, Mutex_unlock, Cartesian]"
  by (erule frame_write_Running) simp

lemma frame_write_not_Exited: "frame_write s \<noteq> Exited c s'"
  by (simp add: frame_write_def Let_def split: sum.splits prod.splits)

lemma lidar_branch_Running:
  assumes "lidar_branch k info ev s = Running s'"
  shows "\<exists>t. calls s' = calls s @ t \<and> Read_lidar_packet False \<notin> set t"
proof (cases "LIDAR_DATA (ev_state ev)")
  case False
  with assms show ?thesis by (simp add: lidar_branch_def)
next
  case True
  show ?thesis
  proof (cases "ev_lidar_ok ev")
    case False
    with True assms show ?thesis by (simp add: lidar_branch_def Let_def FATAL_def)
  next
    case ok: True
    let ?s1 = "s\<lparr>packet_buf := ev_lidar_buf ev, calls := calls s @ [Read_lidar_packet True]\<rparr>"
    obtain full b' scan' where
      bt: "batch_to_scan k (batcher ?s1) (packet_buf ?s1) (scan ?s1) = (full, b', scan')"
      by (cases "batch_to_scan k (batcher ?s1) (packet_buf ?s1) (scan ?s1)")
    let ?s2 = "?s1\<lparr>batcher := b', scan := scan', calls := calls ?s1 @ [Batch_to_scan full]\<rparr>"
    let ?ok = "complete k (scan ?s2) (column_window info)"
    let ?s3 = "?s2\<lparr>calls := calls ?s2 @ [Scan_complete ?ok]\<rparr>"
    show ?thesis
    proof (cases full)
      case False
      with assms True ok bt have "s' = ?s2"
        by (simp add: lidar_branch_def Let_def)
      then show ?thesis by simp
    next
      case full: True
      show ?thesis
      proof (cases ?ok)
        case False
        with assms True ok bt full have "s' = ?s3"
          by (simp add: lidar_branch_def Let_def)
        then show ?thesis by simp
      next
        case True
        with assms \<open>LIDAR_DATA (ev_state ev)\<close> ok bt full have "frame_write ?s3 = Running s'"
          by (simp add: lidar_branch_def Let_def)
        from frame_write_calls [OF this] show ?thesis by simp
      qed
    qed
  qed
qed

lemma lidar_branch_Exited:
  assumes "lidar_branch k info ev s = Exited c s'"
  shows "c = EXIT_FAILURE \<and> calls s' = calls s @ [Read_lidar_packet False] \<and>
         batcher s' = batcher s \<and> scan s' = scan s \<and> app_bmp s' = app_bmp s"
proof (cases "LIDAR_DATA (ev_state ev) \<and> \<not> ev_lidar_ok ev")
  case True
  with assms show ?thesis by (auto simp: lidar_branch_def Let_def FATAL_def)
next
  case False
  with assms have False
    by (auto simp: lidar_branch_def Let_def frame_write_not_Exited split: if_splits prod.splits)
  then show ?thesis ..
qed

lemma render_iteration_Running:
  assumes "render_iteration k info ev s = Running s'"
  shows "\<exists>t. calls s' = calls s @ t \<and> Read_lidar_packet False \<notin> set t"
proof -
  let ?s = "s\<lparr>app_mouse := ev_mouse ev, calls := calls s @ [Poll_client]\<rparr>"
  from assms obtain s1 where l: "lidar_branch k info ev ?s = Running s1"
    and s': "s' = imu_branch ev s1"
    by (auto simp: render_iteration_def Let_def FATAL_def split: if_splits run.splits)
  from lidar_branch_Running [OF l] obtain t where
    "calls s1 = calls s @ Poll_client # t" "Read_lidar_packet False \<notin> set t"
    by auto
  then show ?thesis
    by (auto simp: s' imu_branch_def)
qed

lemma render_iteration_Exited:
  assumes "render_iteration k info ev s = Exited c s'"
  shows "c = EXIT_FAILURE \<and>
         (\<exists>t. t \<noteq> [] \<and> calls s' = calls s @ t \<and> Read_lidar_packet False \<notin> set (butlast t))"
proof (cases "CLIENT_ERROR (ev_state ev)")
  case True
  with assms show ?thesis
    by (auto simp: render_iteration_error)
next
  case False
  let ?s = "s\<lparr>app_mouse := ev_mouse ev, calls := calls s @ [Poll_client]\<rparr>"
  from False assms have "lidar_branch k info ev ?s = Exited c s'"
    by (auto simp: render_iteration_def Let_def split: run.splits)
  from lidar_branch_Exited [OF this]
  have "c = EXIT_FAILURE" and "calls s' = calls s @ [Poll_client, Read_lidar_packet False]"
    by simp_all
  then show ?thesis by simp
qed

lemma render_loop_calls:
  assumes "Read_lidar_packet False \<notin> set (calls s)"
  shows "(render_loop k info evs s = Running s' \<longrightarrow> Read_lidar_packet False \<notin> set (calls s')) \<and>
         (render_loop k info evs s = Exited c s' \<longrightarrow>
            c = EXIT_FAILURE \<and> Read_lidar_packet False \<notin> set (butlast (calls s')))"
  using assms
proof (induction evs arbitrary: s)
  case Nil
  then show ?case by auto
next
  case (Cons ev evs)
  show ?case
  proof (cases "render_iteration k info ev s")
    case (Running s1)
    from render_iteration_Running [OF this] Cons.prems
    have "Read_lidar_packet False \<notin> set (calls s1)" by auto
    from Cons.IH [OF this] Running show ?thesis by simp
  next
    case (Exited c1 s1)
    from render_iteration_Exited [OF this] Cons.prems
    have "c1 = EXIT_FAILURE \<and> Read_lidar_packet False \<notin> set (butlast (calls s1))"
      by (auto simp: butlast_append)
    with Exited show ?thesis by auto
  next
    case (Crashed e s1)
    then show ?thesis by simp
  qed
qed


lemma lv_lidar_branch_Running:
  assumes "lv_lidar_branch k info ev s = Running s'"
  shows "\<exists>t. lv_calls s' = lv_calls s @ t \<and> Read_lidar_packet False \<notin> set t"
proof (cases "LIDAR_DATA (ev_state ev)")
  case False
  with assms show ?thesis by (simp add: lv_lidar_branch_def)
next
  case True
  show ?thesis
  proof (cases "ev_lidar_ok ev")
    case False
    with True assms show ?thesis by (simp add: lv_lidar_branch_def Let_def lv_FATAL_def)
  next
    case ok: True
    let ?s1 = "s\<lparr>lv_packet_buf := ev_lidar_buf ev,
                  lv_calls := lv_calls s @ [Read_lidar_packet True]\<rparr>"
    obtain full b' scan' where
      bt: "batch_to_scan k (lv_batcher ?s1) (lv_packet_buf ?s1) (lv_scan ?s1) = (full, b', scan')"
      by (cases "batch_to_scan k (lv_batcher ?s1) (lv_packet_buf ?s1) (lv_scan ?s1)")
    let ?s2 = "?s1\<lparr>lv_batcher := b', lv_scan := scan',
                   lv_calls := lv_calls ?s1 @ [Batch_to_scan full]\<rparr>"
    let ?ok = "complete k (lv_scan ?s2) (column_window info)"
    let ?s3 = "?s2\<lparr>lv_calls := lv_calls ?s2 @ [Scan_complete ?ok]\<rparr>"
    show ?thesis
    proof (cases full)
      case False
      with assms True ok bt have "s' = ?s2"
        by (simp add: lv_lidar_branch_def Let_def)
      then show ?thesis by simp
    next
      case full: True
      show ?thesis
      proof (cases ?ok)
        case False
        with assms True ok bt full have "s' = ?s3"
          by (simp add: lv_lidar_branch_def Let_def)
        then show ?thesis by simp
      next
        case True
        with assms \<open>LIDAR_DATA (ev_state ev)\<close> ok bt full
        have "s' = ?s3\<lparr>lv_cloud_xyz := Some (cartesian k (lv_scan ?s3)), lv_cloud_key := True,
                 lv_calls := lv_calls ?s3 @ [Cartesian, Cloud_set_xyz, Cloud_set_key]\<rparr>"
          by (simp add: lv_lidar_branch_def Let_def)
        then show ?thesis by simp
      qed
    qed
  qed
qed

lemma lv_lidar_branch_Exited:
  assumes "lv_lidar_branch k info ev s = Exited c s'"
  shows "c = EXIT_FAILURE \<and> lv_calls s' = lv_calls s @ [Read_lidar_packet False] \<and>
         lv_batcher s' = lv_batcher s \<and> lv_scan s' = lv_scan s"
proof (cases "LIDAR_DATA (ev_state ev) \<and> \<not> ev_lidar_ok ev")
  case True
  with assms show ?thesis by (auto simp: lv_lidar_branch_def Let_def lv_FATAL_def)
next
  case False
  with assms have False
    by (auto simp: lv_lidar_branch_def Let_def split: if_splits prod.splits)
  then show ?thesis ..
qed

lemma lv_iteration_Running:
  assumes "lv_iteration k info ev s = Running s'"
  shows "\<exists>t. lv_calls s' = lv_calls s @ t \<and> Read_lidar_packet False \<notin> set t"
proof -
  let ?s = "s\<lparr>lv_calls := lv_calls s @ [Poll_client]\<rparr>"
  from assms obtain s1 where l: "lv_lidar_branch k info ev ?s = Running s1"
    and s': "s' = lv_imu_branch ev s1"
    by (auto simp: lv_iteration_def Let_def lv_FATAL_def split: if_splits run.splits)
  from lv_lidar_branch_Running [OF l] obtain t where
    "lv_calls s1 = lv_calls s @ Poll_client # t" "Read_lidar_packet False \<notin> set t"
    by auto
  then show ?thesis
    by (auto simp: s' lv_imu_branch_def)
qed

lemma lv_iteration_Exited:
  assumes "lv_iteration k info ev s = Exited c s'"
  shows "c = EXIT_FAILURE \<and>
         (\<exists>t. t \<noteq> [] \<and> lv_calls s' = lv_calls s @ t \<and> Read_lidar_packet False \<notin> set (butlast t))"
proof (cases "CLIENT_ERROR (ev_state ev)")
  case True
  with assms show ?thesis
    by (auto simp: lv_iteration_error)
next
  case False
  let ?s = "s\<lparr>lv_calls := lv_calls s @ [Poll_client]\<rparr>"
  from False assms have "lv_lidar_branch k info ev ?s = Exited c s'"
    by (auto simp: lv_iteration_def Let_def split: run.splits)
  from lv_lidar_branch_Exited [OF this]
  have "c = EXIT_FAILURE" and "lv_calls s' = lv_calls s @ [Poll_client, Read_lidar_packet False]"
    by simp_all
  then show ?thesis by simp
qed

lemma lv_loop_calls:
  assumes "Read_lidar_packet False \<notin> set (lv_calls s)"
  shows "(lv_loop k info evs s = Running s' \<longrightarrow> Read_lidar_packet False \<notin> set (lv_calls s')) \<and>
         (lv_loop k info evs s = Exited c s' \<longrightarrow>
            c = EXIT_FAILURE \<and> Read_lidar_packet False \<notin> set (butlast (lv_calls s')))"
  using assms
proof (induction evs arbitrary: s)
  case Nil
  then show ?case by auto
next
  case (Cons ev evs)
  show ?case
  proof (cases "lv_iteration k info ev s")
    case (Running s1)
    from lv_iteration_Running [OF this] Cons.prems
    have "Read_lidar_packet False \<notin> set (lv_calls s1)" by auto
    from Cons.IH [OF this] Running show ?thesis by simp
  next
    case (Exited c1 s1)
    from lv_iteration_Exited [OF this] Cons.prems
    have "c1 = EXIT_FAILURE \<and> Read_lidar_packet False \<notin> set (butlast (lv_calls s1))"
      by (auto simp: butlast_append)
    with Exited show ?thesis by auto
  next
    case (Crashed e s1)
    then show ?thesis by simp
  qed
qed

lemma frame_write_Crashed:
  "frame_write s = Crashed e s' \<Longrightarrow> calls s' = calls s @ [Mutex_lock]"
  by (auto simp: frame_write_def Let_def split: sum.splits prod.splits)

lemma lidar_branch_Crashed:
  assumes "lidar_branch k info ev s = Crashed e s'"
  shows "\<exists>t. calls s' = calls s @ t \<and> Read_lidar_packet False \<notin> set t"
proof -
  let ?s1 = "s\<lparr>packet_buf := ev_lidar_buf ev, calls := calls s @ [Read_lidar_packet True]\<rparr>"
  obtain full b' scan' where
    bt: "batch_to_scan k (batcher ?s1) (packet_buf ?s1) (scan ?s1) = (full, b', scan')"
    by (cases "batch_to_scan k (batcher ?s1) (packet_buf ?s1) (scan ?s1)")
  let ?s2 = "?s1\<lparr>batcher := b', scan := scan', calls := calls ?s1 @ [Batch_to_scan full]\<rparr>"
  let ?ok = "complete k (scan ?s2) (column_window info)"
  let ?s3 = "?s2\<lparr>calls := calls ?s2 @ [Scan_complete ?ok]\<rparr>"
  have "frame_write ?s3 = Crashed e s'"
  proof (cases "LIDAR_DATA (ev_state ev) \<and> ev_lidar_ok ev \<and> full \<and> ?ok")
    case True
    with assms bt show ?thesis
      by (simp add: lidar_branch_def Let_def)
  next
    case False
    with assms bt have False
      by (auto simp: lidar_branch_def Let_def FATAL_def split: if_splits)
    then show ?thesis ..
  qed
  from frame_write_Crashed [OF this] show ?thesis by simp
qed

lemma render_iteration_Crashed:
  assumes "render_iteration k info ev s = Crashed e s'"
  shows "\<exists>t. calls s' = calls s @ t \<and> Read_lidar_packet False \<notin> set t"
proof -
  let ?s = "s\<lparr>app_mouse := ev_mouse ev, calls := calls s @ [Poll_client]\<rparr>"
  from assms have "lidar_branch k info ev ?s = Crashed e s'"
    by (auto simp: render_iteration_def Let_def FATAL_def split: if_splits run.splits)
  from lidar_branch_Crashed [OF this] show ?thesis by auto
qed

lemma render_loop_Crashed:
  assumes "Read_lidar_packet False \<notin> set (calls s)"
    and "render_loop k info evs s = Crashed e s'"
  shows "Read_lidar_packet False \<notin> set (calls s')"
  using assms
proof (induction evs arbitrary: s)
  case Nil
  then show ?case by simp
next
  case (Cons ev evs)
  show ?case
  proof (cases "render_iteration k info ev s")
    case (Running s1)
    from render_iteration_Running [OF this] Cons.prems(1)
    have "Read_lidar_packet False \<notin> set (calls s1)" by auto
    from Cons.IH [OF this] Running Cons.prems(2) show ?thesis by simp
  next
    case (Exited c1 s1)
    with Cons.prems(2) show ?thesis by simp
  next
    case (Crashed e1 s1)
    with Cons.prems(2) have "s1 = s'" by simp
    with render_iteration_Crashed [OF Crashed] Cons.prems(1) show ?thesis by auto
  qed
qed

lemma lv_iteration_not_Crashed: "lv_iteration k info ev s \<noteq> Crashed e s'"
  by (auto simp: lv_iteration_def lv_lidar_branch_def lv_FATAL_def Let_def
      split: if_splits run.splits prod.splits)

lemma lv_loop_not_Crashed: "lv_loop k info evs s \<noteq> Crashed e s'"
proof (induction evs arbitrary: s)
  case Nil
  show ?case by simp
next
  case (Cons ev evs)
  then show ?case
    by (cases "lv_iteration k info ev s") (simp_all add: lv_iteration_not_Crashed)
qed

text \<open>
  Claim C6. An iteration whose packet read fails exits with \<open>EXIT_FAILURE\<close> right after
  the read: the calls of the iteration are the poll and the failed read, and the batcher
  and the scan are those from before. In a run of either loop that starts with no failed
  read among its calls, a failed read can only be the last call, of a run that has exited
  with \<open>EXIT_FAILURE\<close>; so no call of the batcher ever follows a failed read. A run that
  a fault has stopped has no failed read among its calls.
\<close>

theorem no_batching_after_failed_read:
  "(\<not> CLIENT_ERROR (ev_state ev) \<and> LIDAR_DATA (ev_state ev) \<and> \<not> ev_lidar_ok ev \<longrightarrow>
      (\<exists>s'. render_iteration k info ev s = Exited EXIT_FAILURE s' \<and>
         calls s' = calls s @ [Poll_client, Read_lidar_packet False] \<and>
         batcher s' = batcher s \<and> scan s' = scan s) \<and>
      (\<exists>sv'. lv_iteration kv info ev sv = Exited EXIT_FAILURE sv' \<and>
         lv_calls sv' = lv_calls sv @ [Poll_client, Read_lidar_packet False] \<and>
         lv_batcher sv' = lv_batcher sv \<and> lv_scan sv' = lv_scan sv)) \<and>
   (Read_lidar_packet False \<notin> set (calls s) \<longrightarrow>
      (render_loop k info evs s = Running s' \<longrightarrow> Read_lidar_packet False \<notin> set (calls s')) \<and>
      (render_loop k info evs s = Exited c s' \<longrightarrow>
         c = EXIT_FAILURE \<and> Read_lidar_packet False \<notin> set (butlast (calls s')) \<and>
         \<not> batched_after_failed_read (calls s')) \<and>
      (render_loop k info evs s = Crashed e s' \<longrightarrow>
         Read_lidar_packet False \<notin> set (calls s'))) \<and>
   (Read_lidar_packet False \<notin> set (lv_calls sv) \<longrightarrow>
      (lv_loop kv info evs sv = Running sv' \<longrightarrow> Read_lidar_packet False \<notin> set (lv_calls sv')) \<and>
      (lv_loop kv info evs sv = Exited c sv' \<longrightarrow>
         c = EXIT_FAILURE \<and> Read_lidar_packet False \<notin> set (butlast (lv_calls sv')) \<and>
         \<not> batched_after_failed_read (lv_calls sv'))) \<and>
   lv_loop kv info evs sv \<noteq> Crashed e sv'"
proof (intro conjI impI)
  assume a: "\<not> CLIENT_ERROR (ev_state ev) \<and> LIDAR_DATA (ev_state ev) \<and> \<not> ev_lidar_ok ev"
  then show "\<exists>s'. render_iteration k info ev s = Exited EXIT_FAILURE s' \<and>
         calls s' = calls s @ [Poll_client, Read_lidar_packet False] \<and>
         batcher s' = batcher s \<and> scan s' = scan s"
    by (simp add: render_iteration_failed_read)
  from a show "\<exists>sv'. lv_iteration kv info ev sv = Exited EXIT_FAILURE sv' \<and>
         lv_calls sv' = lv_calls sv @ [Poll_client, Read_lidar_packet False] \<and>
         lv_batcher sv' = lv_batcher sv \<and> lv_scan sv' = lv_scan sv"
    by (simp add: lv_iteration_failed_read)
next
  assume a: "Read_lidar_packet False \<notin> set (calls s)"
  note L = render_loop_calls [OF a, of k info evs]
  show "Read_lidar_packet False \<notin> set (calls s')" if "render_loop k info evs s = Running s'"
    using L that by blast
  assume e: "render_loop k info evs s = Exited c s'"
  with L [of s' c] show "c = EXIT_FAILURE"
    and l: "Read_lidar_packet False \<notin> set (butlast (calls s'))"
    by blast+
  from l show "\<not> batched_after_failed_read (calls s')"
    by (rule failed_read_last_not_batched)
next
  assume "Read_lidar_packet False \<notin> set (calls s)" and "render_loop k info evs s = Crashed e s'"
  then show "Read_lidar_packet False \<notin> set (calls s')"
    by (rule render_loop_Crashed)
next
  show "lv_loop kv info evs sv \<noteq> Crashed e sv'"
    by (rule lv_loop_not_Crashed)
next
  assume a: "Read_lidar_packet False \<notin> set (lv_calls sv)"
  note L = lv_loop_calls [OF a, of kv info evs]
  show "Read_lidar_packet False \<notin> set (lv_calls sv')" if "lv_loop kv info evs sv = Running sv'"
    using L that by blast
  assume e: "lv_loop kv info evs sv = Exited c sv'"
  with L [of sv' c] show "c = EXIT_FAILURE"
    and l: "Read_lidar_packet False \<notin> set (butlast (lv_calls sv'))"
    by blast+
  from l show "\<not> batched_after_failed_read (lv_calls sv')"
    by (rule failed_read_last_not_batched)
qed



lemmas example_run_defs =
  render_iteration_def lidar_branch_def imu_branch_def frame_write_def FATAL_def
  lv_iteration_def lv_lidar_branch_def lv_imu_branch_def lv_FATAL_def
  example_event_def example_sdk_def example_info_def Let_def

lemma example_state_bmp:
  "scan_to_bmp example_scan RANGE (app_bmp example_state) = Inr example_shaded"
  using example_scan_to_bmp by (simp add: example_state_def)

theorem errors_are_fatal_witness:
  "(\<exists>s'. view_tigr_main example_sdk example_world [''view_tigr'', ''nowhere'']
            = Exited EXIT_FAILURE s') \<and>
   (\<exists>s'. lidar_view_main example_sdk example_world [''client_example'', ''nowhere'']
            = Exited EXIT_FAILURE s') \<and>
   (\<exists>s'. render_loop example_sdk example_info
            [example_event True True True True, example_event False True True True]
            example_state = Exited EXIT_FAILURE s' \<and> calls s' = [Poll_client]) \<and>
   (\<exists>s'. lv_loop example_sdk example_info
            [example_event True True True True, example_event False True True True]
            (lv_start example_sdk) = Exited EXIT_FAILURE s' \<and> lv_calls s' = [Poll_client]) \<and>
   (\<exists>s'. render_loop example_sdk example_info
            [example_event False True True False, example_event False True True True]
            example_state = Exited EXIT_FAILURE s' \<and>
          calls s' = [Poll_client, Read_lidar_packet False]) \<and>
   (\<exists>s'. lv_loop example_sdk example_info
            [example_event False True True False, example_event False True True True]
            (lv_start example_sdk) = Exited EXIT_FAILURE s' \<and>
          lv_calls s' = [Poll_client, Read_lidar_packet False]) \<and>
   (\<exists>s'. view_tigr_main example_sdk example_world [''view_tigr'', ''os-1'']
            = Exited EXIT_FAILURE s' \<and>
          app_bmp s' = tigrBitmap 2 2 \<and> calls s' = [Poll_client] \<and> cout s' = [])"
proof -
  let ?down = "[''view_tigr'', ''nowhere'']" and ?up = "[''view_tigr'', ''os-1'']"
  let ?lv = "[''client_example'', ''nowhere'']"
  let ?err = "example_event True True True True" and ?short = "example_event False True True False"
  let ?next = "[example_event False True True True]"
  have 1: "1 < length ?down \<and> \<not> init_client example_world (?down ! 1) []"
    by (simp add: example_world_def)
  have 2: "(length ?lv = 2 \<or> length ?lv = 3) \<and>
      \<not> init_client example_world (?lv ! 1) (if length ?lv = 3 then ?lv ! 2 else [])"
    by (simp add: example_world_def)
  have 3: "CLIENT_ERROR (ev_state ?err)"
    by (simp add: example_event_def)
  have 4: "\<not> CLIENT_ERROR (ev_state ?short) \<and> LIDAR_DATA (ev_state ?short) \<and>
      \<not> ev_lidar_ok ?short"
    by (simp add: example_event_def)
  have 5: "1 < length ?up \<and> init_client example_world (?up ! 1) [] \<and>
      events example_world = example_event True False False False # ?next \<and>
      CLIENT_ERROR (ev_state (example_event True False False False))"
    by (simp add: example_world_def example_event_def)
  have c0: "calls example_state = []" "lv_calls (lv_start example_sdk) = []"
    by (simp_all add: example_state_def app_start_def lv_start_def)
  have m: "columns_per_frame (metadata example_world) = 2"
    "pixels_per_column (metadata example_world) = 2"
    by (simp_all add: example_world_def example_info_def)
  note T = errors_are_fatal [where k = example_sdk and kv = example_sdk and info = example_info
      and s = example_state and sv = "lv_start example_sdk" and evs = ?next]
  from T [where wld = example_world and argv = ?down and ev = ?err] 1 3
  have a: "\<exists>s'. view_tigr_main example_sdk example_world ?down = Exited EXIT_FAILURE s'"
    and c: "\<exists>s'. render_loop example_sdk example_info (?err # ?next) example_state
              = Exited EXIT_FAILURE s' \<and> calls s' = [Poll_client]"
    and d: "\<exists>s'. lv_loop example_sdk example_info (?err # ?next) (lv_start example_sdk)
              = Exited EXIT_FAILURE s' \<and> lv_calls s' = [Poll_client]"
    by (simp_all add: c0)
  from T [where wld = example_world and argv = ?lv and ev = ?short] 2 4
  have b: "\<exists>s'. lidar_view_main example_sdk example_world ?lv = Exited EXIT_FAILURE s'"
    and e: "\<exists>s'. render_loop example_sdk example_info (?short # ?next) example_state
              = Exited EXIT_FAILURE s' \<and> calls s' = [Poll_client, Read_lidar_packet False]"
    and f: "\<exists>s'. lv_loop example_sdk example_info (?short # ?next) (lv_start example_sdk)
              = Exited EXIT_FAILURE s' \<and> lv_calls s' = [Poll_client, Read_lidar_packet False]"
    by (simp_all add: c0)
  from T [where wld = example_world and argv = ?up
      and ev = "example_event True False False False"] 5
  have g: "\<exists>s'. view_tigr_main example_sdk example_world ?up = Exited EXIT_FAILURE s' \<and>
          app_bmp s' = tigrBitmap 2 2 \<and> calls s' = [Poll_client] \<and> cout s' = []"
    by (simp add: m)
  from a b c d e f g show ?thesis by blast
qed

text \<open>
  Claim C5 as stated asks this of every failed packet read. The result of
  \<^verbatim>\<open>read_imu_packet\<close> is not tested: after two polls that report IMU data and two
  reads of the IMU packet that fail, both loops are still running and nothing has been
  printed on the error stream.
\<close>

theorem failed_imu_read_counterexample:
  "\<not> CLIENT_ERROR (ev_state example_imu_failure) \<and> IMU_DATA (ev_state example_imu_failure) \<and>
   \<not> ev_imu_ok example_imu_failure \<and>
   render_loop example_sdk example_info [example_imu_failure, example_imu_failure] example_state =
     Running (example_state\<lparr>packet_buf := [4, 5],
       calls := [Poll_client, Read_imu_packet False, Poll_client, Read_imu_packet False]\<rparr>) \<and>
   cerr example_state = [] \<and>
   lv_loop example_sdk example_info [example_imu_failure, example_imu_failure]
       (lv_start example_sdk) =
     Running ((lv_start example_sdk)\<lparr>lv_packet_buf := [4, 5],
       lv_calls := [Poll_client, Read_imu_packet False, Poll_client, Read_imu_packet False]\<rparr>) \<and>
   lv_cerr (lv_start example_sdk) = []"
  by (simp add: example_run_defs example_imu_failure_def example_state_def app_start_def
      lv_start_def)


lemma example_run_exits:
  "\<exists>s'. render_loop example_sdk example_info
          [example_event False True True True, example_event False True True False,
           example_event False True True True] example_state = Exited EXIT_FAILURE s'"
  by (simp add: example_run_defs example_state_def app_start_def example_scan_to_bmp
      example_print_range)

lemma example_run_goes_on:
  "\<exists>s'. render_loop example_sdk example_info [example_event False True True True] example_state
          = Running s'"
  by (simp add: example_run_defs example_state_def app_start_def example_scan_to_bmp
      example_print_range)

lemma example_run_crashes:
  "\<exists>s'. render_loop example_blank_sdk example_info [example_event False True True True]
          example_state = Crashed Division_by_zero s'"
  by (simp add: example_run_defs example_blank_sdk_def example_state_def app_start_def
      example_blank_scan_to_bmp)

lemma example_lv_run_exits:
  "\<exists>s'. lv_loop example_sdk example_info
          [example_event False True True True, example_event False True True False,
           example_event False True True True] (lv_start example_sdk) = Exited EXIT_FAILURE s'"
  by (simp add: example_run_defs lv_start_def)

lemma example_lv_run_goes_on:
  "\<exists>s'. lv_loop example_sdk example_info [example_event False True True True]
          (lv_start example_sdk) = Running s'"
  by (simp add: example_run_defs lv_start_def)

theorem no_batching_after_failed_read_witness:
  "(\<exists>s'. render_iteration example_sdk example_info (example_event False True True False)
            example_state = Exited EXIT_FAILURE s' \<and>
          calls s' = calls example_state @ [Poll_client, Read_lidar_packet False] \<and>
          batcher s' = batcher example_state \<and> scan s' = scan example_state) \<and>
   (\<exists>s'. lv_iteration example_sdk example_info (example_event False True True False)
            (lv_start example_sdk) = Exited EXIT_FAILURE s' \<and>
          lv_calls s' = lv_calls (lv_start example_sdk) @ [Poll_client, Read_lidar_packet False]) \<and>
   (\<exists>s'. render_loop example_sdk example_info
            [example_event False True True True, example_event False True True False,
             example_event False True True True] example_state = Exited EXIT_FAILURE s' \<and>
          Read_lidar_packet False \<notin> set (butlast (calls s')) \<and>
          \<not> batched_after_failed_read (calls s')) \<and>
   (\<exists>s'. render_loop example_sdk example_info [example_event False True True True] example_state
            = Running s' \<and> Read_lidar_packet False \<notin> set (calls s')) \<and>
   (\<exists>s'. lv_loop example_sdk example_info
            [example_event False True True True, example_event False True True False,
             example_event False True True True] (lv_start example_sdk) = Exited EXIT_FAILURE s' \<and>
          Read_lidar_packet False \<notin> set (butlast (lv_calls s')) \<and>
          \<not> batched_after_failed_read (lv_calls s')) \<and>
   (\<exists>s'. lv_loop example_sdk example_info [example_event False True True True]
            (lv_start example_sdk) = Running s' \<and> Read_lidar_packet False \<notin> set (lv_calls s')) \<and>
   (\<exists>s'. render_loop example_blank_sdk example_info [example_event False True True True]
            example_state = Crashed Division_by_zero s' \<and>
          Read_lidar_packet False \<notin> set (calls s'))"
proof -
  let ?ok = "example_event False True True True" and ?short = "example_event False True True False"
  have h: "\<not> CLIENT_ERROR (ev_state ?short) \<and> LIDAR_DATA (ev_state ?short) \<and>
      \<not> ev_lidar_ok ?short"
    by (simp add: example_event_def)
  have c0: "Read_lidar_packet False \<notin> set (calls example_state)"
    "Read_lidar_packet False \<notin> set (lv_calls (lv_start example_sdk))"
    by (simp_all add: example_state_def app_start_def lv_start_def)
  note T = no_batching_after_failed_read [where k = example_sdk and kv = example_sdk
      and info = example_info and s = example_state and sv = "lv_start example_sdk"]
  from T [where ev = ?short] h
  have a: "\<exists>s'. render_iteration example_sdk example_info ?short example_state
              = Exited EXIT_FAILURE s' \<and>
          calls s' = calls example_state @ [Poll_client, Read_lidar_packet False] \<and>
          batcher s' = batcher example_state \<and> scan s' = scan example_state"
    and b: "\<exists>s'. lv_iteration example_sdk example_info ?short (lv_start example_sdk)
              = Exited EXIT_FAILURE s' \<and>
          lv_calls s' = lv_calls (lv_start example_sdk) @ [Poll_client, Read_lidar_packet False]"
    by blast+
  from example_run_exits obtain s1 where
    r1: "render_loop example_sdk example_info [?ok, ?short, ?ok] example_state
           = Exited EXIT_FAILURE s1" ..
  from example_lv_run_exits obtain v1 where
    r2: "lv_loop example_sdk example_info [?ok, ?short, ?ok] (lv_start example_sdk)
           = Exited EXIT_FAILURE v1" ..
  from T [where evs = "[?ok, ?short, ?ok]" and s' = s1 and sv' = v1 and c = EXIT_FAILURE] c0 r1 r2
  have c: "Read_lidar_packet False \<notin> set (butlast (calls s1)) \<and>
      \<not> batched_after_failed_read (calls s1)"
    and d: "Read_lidar_packet False \<notin> set (butlast (lv_calls v1)) \<and>
      \<not> batched_after_failed_read (lv_calls v1)"
    by blast+
  from example_run_goes_on obtain s2 where
    r3: "render_loop example_sdk example_info [?ok] example_state = Running s2" ..
  from example_lv_run_goes_on obtain v2 where
    r4: "lv_loop example_sdk example_info [?ok] (lv_start example_sdk) = Running v2" ..
  from T [where evs = "[?ok]" and s' = s2 and sv' = v2] c0 r3 r4
  have e: "Read_lidar_packet False \<notin> set (calls s2)"
    and f: "Read_lidar_packet False \<notin> set (lv_calls v2)"
    by blast+
  from example_run_crashes obtain s3 where
    r5: "render_loop example_blank_sdk example_info [?ok] example_state
           = Crashed Division_by_zero s3" ..
  from no_batching_after_failed_read [where k = example_blank_sdk and info = example_info
      and s = example_state and evs = "[?ok]" and s' = s3 and e = Division_by_zero] c0 r5
  have g: "Read_lidar_packet False \<notin> set (calls s3)"
    by blast
  from a b r1 c r3 e r2 d r4 f r5 g show ?thesis by blast
qed


section \<open>Properties of the lock\<close>

lemma run_writes_append:
  "run_writes (as @ bs) bmp = and_then (run_writes as bmp) (run_writes bs)"
  by (induction as bmp rule: run_writes.induct) (simp_all add: and_then_def split: sum.splits)

lemma run_writes_map_Write:
  "run_writes (map (\<lambda>p. Write (g p)) ps) bmp = for_each ps g bmp"
  by (induction ps arbitrary: bmp) (simp_all add: and_then_def split: sum.splits)

text \<open>
  Run without the other thread, the accesses of a frame write leave the bitmap that
  \<^verbatim>\<open>scan_to_bmp\<close> followed by \<^verbatim>\<open>print_range\<close> leaves.
\<close>

lemma run_frame_write_accesses:
  "run_writes (frame_write_accesses sc m) bmp =
     and_then (scan_to_bmp sc RANGE bmp) (\<lambda>b1.
       if mouse_btn m \<noteq> 0
       then (case print_range sc RANGE b1 (mouse_x m) (mouse_y m) out of
               Inl e \<Rightarrow> Inl e | Inr (b2, out2) \<Rightarrow> Inr b2)
       else Inr b1)"
proof -
  obtain mn mx where mm: "scan_minmax sc RANGE = (mn, mx)" by (cases "scan_minmax sc RANGE")
  show ?thesis
    by (cases "scan_to_bmp sc RANGE bmp")
      (auto simp: frame_write_accesses_def run_writes_append run_writes_map_Write
        scan_to_bmp_flat mm print_range_def probe_write_def and_then_def Let_def
        split: sum.splits)
qed

lemma holding_frame_write_accesses:
  "\<exists>as. frame_write_accesses sc m = Lock # as \<and> holding as"
  by (auto simp: frame_write_accesses_def holding_def butlast_append)

lemma holding_blit_accesses:
  "\<exists>as. blit_accesses n = Lock # as \<and> holding as"
  by (auto simp: blit_accesses_def holding_def butlast_append)

lemma holding_Write: "holding (Write f # as) \<Longrightarrow> holding as"
  by (auto simp: holding_def split: if_splits)

lemma holding_Read: "holding (Read i # as) \<Longrightarrow> holding as"
  by (auto simp: holding_def split: if_splits)

lemma holding_Unlock: "holding (Unlock # as) \<Longrightarrow> as = []"
  by (auto simp: holding_def split: if_splits)

lemma not_holding_Lock: "\<not> holding (Lock # as)"
  by (simp add: holding_def)

lemma not_holding_Nil: "\<not> holding []"
  by (simp add: holding_def)

lemma well_placed_Lock: "well_placed (Lock # as) \<Longrightarrow> holding as"
  by (auto simp: well_placed_def not_holding_Lock)

lemma well_placed_inside: "well_placed (a # as) \<Longrightarrow> a \<noteq> Lock \<Longrightarrow> holding (a # as)"
  by (auto simp: well_placed_def)

lemma step_lock_invariant:
  assumes "step c c'" and "lock_invariant c"
  shows "lock_invariant c'"
  using assms
proof (induction rule: step.induct)
  case (acq_enter c sc m)
  with holding_frame_write_accesses [of sc m] show ?case
    by (auto simp: lock_invariant_def well_placed_def not_holding_Nil not_holding_Lock)
next
  case (acq_lock c as)
  then have "holding as" by (auto simp: lock_invariant_def dest: well_placed_Lock)
  with acq_lock show ?case
    by (auto simp: lock_invariant_def well_placed_def)
next
  case (acq_write c f as bmp')
  then have "holding (Write f # as)"
    by (auto simp: lock_invariant_def dest: well_placed_inside)
  then have "holding as" by (rule holding_Write)
  with acq_write \<open>holding (Write f # as)\<close> show ?case
    by (auto simp: lock_invariant_def well_placed_def)
next
  case (acq_unlock c as)
  then have h: "holding (Unlock # as)"
    by (auto simp: lock_invariant_def dest: well_placed_inside)
  then have "as = []" by (rule holding_Unlock)
  with acq_unlock h show ?case
    by (auto simp: lock_invariant_def well_placed_def not_holding_Nil)
next
  case (disp_enter c n)
  with holding_blit_accesses [of n] show ?case
    by (auto simp: lock_invariant_def well_placed_def not_holding_Nil not_holding_Lock)
next
  case (disp_lock c as)
  then have "holding as" by (auto simp: lock_invariant_def dest: well_placed_Lock)
  with disp_lock show ?case
    by (auto simp: lock_invariant_def well_placed_def)
next
  case (disp_read c i as)
  then have "holding (Read i # as)"
    by (auto simp: lock_invariant_def dest: well_placed_inside)
  then have "holding as" by (rule holding_Read)
  with disp_read \<open>holding (Read i # as)\<close> show ?case
    by (auto simp: lock_invariant_def well_placed_def)
next
  case (disp_unlock c as)
  then have h: "holding (Unlock # as)"
    by (auto simp: lock_invariant_def dest: well_placed_inside)
  then have "as = []" by (rule holding_Unlock)
  with disp_unlock h show ?case
    by (auto simp: lock_invariant_def well_placed_def not_holding_Nil)
qed

lemma reachable_lock_invariant: "reachable c \<Longrightarrow> lock_invariant c"
proof (induction rule: reachable.induct)
  case (start c)
  then show ?case
    by (simp add: lock_invariant_def well_placed_def not_holding_Nil)
next
  case (after c c')
  then show ?case by (blast intro: step_lock_invariant)
qed

lemma step_frame_unchanged:
  assumes "step c c'" and "lock_invariant c" and "holding (pc_disp c)"
  shows "frame c' = frame c"
  using assms
proof (induction rule: step.induct)
  case (acq_write c f as bmp')
  then have "holding (Write f # as)"
    by (auto simp: lock_invariant_def dest: well_placed_inside)
  with acq_write have "mutex c = Some Acquisition" "mutex c = Some Display"
    by (auto simp: lock_invariant_def)
  then show ?case by simp
qed simp_all


text \<open>
  Claim C8. In every configuration that the two threads can reach, whatever the
  interleaving: a thread holds the mutex exactly while it is between its lock and its
  unlock, and the two threads are never there together; the acquisition thread writes a
  pixel of the shared bitmap only while it holds the mutex and the display loop is not
  inside its blit; the display loop reads a pixel only while it holds the mutex and the
  acquisition thread is not inside a frame write; and while the display loop is inside
  its blit no step changes the shared bitmap.
\<close>

theorem frame_lock_discipline:
  assumes "reachable c"
  shows "(mutex c = Some Acquisition) = holding (pc_acq c) \<and>
         (mutex c = Some Display) = holding (pc_disp c) \<and>
         \<not> (holding (pc_acq c) \<and> holding (pc_disp c)) \<and>
         (\<forall>f as. pc_acq c = Write f # as \<longrightarrow>
            mutex c = Some Acquisition \<and> \<not> holding (pc_disp c)) \<and>
         (\<forall>i as. pc_disp c = Read i # as \<longrightarrow>
            mutex c = Some Display \<and> \<not> holding (pc_acq c)) \<and>
         (\<forall>c'. holding (pc_disp c) \<and> step c c' \<longrightarrow> frame c' = frame c)"
proof -
  from assms have I: "lock_invariant c" by (rule reachable_lock_invariant)
  then have m: "(mutex c = Some Acquisition) = holding (pc_acq c)"
    "(mutex c = Some Display) = holding (pc_disp c)"
    and w: "well_placed (pc_acq c)" "well_placed (pc_disp c)"
    by (simp_all add: lock_invariant_def)
  have x: "\<not> (holding (pc_acq c) \<and> holding (pc_disp c))"
    using m by auto
  have a: "mutex c = Some Acquisition \<and> \<not> holding (pc_disp c)" if "pc_acq c = Write f # as" for f as
  proof -
    from w(1) that have "holding (pc_acq c)" by (auto dest: well_placed_inside)
    with m x show ?thesis by simp
  qed
  have d: "mutex c = Some Display \<and> \<not> holding (pc_acq c)" if "pc_disp c = Read i # as" for i as
  proof -
    from w(2) that have "holding (pc_disp c)" by (auto dest: well_placed_inside)
    with m x show ?thesis by simp
  qed
  have u: "frame c' = frame c" if "holding (pc_disp c) \<and> step c c'" for c'
    using that I by (blast intro: step_frame_unchanged)
  from m x a d u show ?thesis by blast
qed

lemma example_writing_reachable: "reachable example_writing"
proof -
  let ?F = "frame_write_accesses example_scan (app_mouse example_state)"
  have F: "?F = Lock # tl ?F"
    by (simp add: frame_write_accesses_def)
  have 0: "reachable example_start"
    by (rule reachable.start) (simp_all add: example_start_def)
  have "step example_start (example_start\<lparr>pc_acq := ?F\<rparr>)"
    by (rule step.acq_enter) (simp add: example_start_def)
  with 0 have 1: "reachable (example_start\<lparr>pc_acq := ?F\<rparr>)"
    by (rule reachable.after)
  have "step (example_start\<lparr>pc_acq := ?F\<rparr>)
          (example_start\<lparr>pc_acq := ?F\<rparr>\<lparr>mutex := Some Acquisition, pc_acq := tl ?F\<rparr>)"
    by (rule step.acq_lock) (use F in \<open>simp_all add: example_start_def\<close>)
  with 1 have 2: "reachable (example_start\<lparr>mutex := Some Acquisition, pc_acq := tl ?F\<rparr>)"
    by (auto dest: reachable.after)
  have 3: "step (example_start\<lparr>mutex := Some Acquisition, pc_acq := tl ?F\<rparr>)
          (example_start\<lparr>mutex := Some Acquisition, pc_acq := tl ?F\<rparr>\<lparr>pc_disp := blit_accesses 4\<rparr>)"
    by (rule step.disp_enter) (simp add: example_start_def)
  have e: "example_writing =
      example_start\<lparr>mutex := Some Acquisition, pc_acq := tl ?F\<rparr>\<lparr>pc_disp := blit_accesses 4\<rparr>"
    by (simp add: example_writing_def example_start_def)
  show ?thesis
    unfolding e by (rule reachable.after [OF 2 3])
qed

lemma example_reading_reachable: "reachable example_reading"
proof -
  let ?F = "frame_write_accesses example_scan (app_mouse example_state)"
  let ?B = "blit_accesses 4"
  have B: "?B = Lock # tl ?B"
    by (simp add: blit_accesses_def)
  have 0: "reachable example_start"
    by (rule reachable.start) (simp_all add: example_start_def)
  have "step example_start (example_start\<lparr>pc_disp := ?B\<rparr>)"
    by (rule step.disp_enter) (simp add: example_start_def)
  with 0 have 1: "reachable (example_start\<lparr>pc_disp := ?B\<rparr>)"
    by (rule reachable.after)
  have "step (example_start\<lparr>pc_disp := ?B\<rparr>)
          (example_start\<lparr>pc_disp := ?B\<rparr>\<lparr>mutex := Some Display, pc_disp := tl ?B\<rparr>)"
    by (rule step.disp_lock) (use B in \<open>simp_all add: example_start_def\<close>)
  with 1 have 2: "reachable (example_start\<lparr>mutex := Some Display, pc_disp := tl ?B\<rparr>)"
    by (auto dest: reachable.after)
  have 3: "step (example_start\<lparr>mutex := Some Display, pc_disp := tl ?B\<rparr>)
          (example_start\<lparr>mutex := Some Display, pc_disp := tl ?B\<rparr>\<lparr>pc_acq := ?F\<rparr>)"
    by (rule step.acq_enter) (simp add: example_start_def)
  have e: "example_reading =
      example_start\<lparr>mutex := Some Display, pc_disp := tl ?B\<rparr>\<lparr>pc_acq := ?F\<rparr>"
    by (simp add: example_reading_def example_start_def)
  show ?thesis
    unfolding e by (rule reachable.after [OF 2 3])
qed

theorem frame_lock_discipline_witness:
  "reachable example_writing \<and> mutex example_writing = Some Acquisition \<and>
   holding (pc_acq example_writing) \<and> \<not> holding (pc_disp example_writing) \<and>
   reachable example_reading \<and> mutex example_reading = Some Display \<and>
   holding (pc_disp example_reading) \<and> \<not> holding (pc_acq example_reading)"
  using frame_lock_discipline [OF example_writing_reachable]
    frame_lock_discipline [OF example_reading_reachable]
    example_writing_reachable example_reading_reachable
  by (simp add: example_writing_def example_reading_def example_start_def)

end
